theory Spec2Isabelle
  imports Complex_Main "HOL-Library.AList" "HOL-Library.Log_Nat"
begin

section \<open>Python values and exceptions\<close>

text \<open>
  The exceptions the modelled functions can raise. An exception that nothing catches ends
  the run, so every function that can raise returns \<open>py_error + 'a\<close>, with \<open>Inl\<close>
  the exception.
\<close>

datatype py_error =
  KeyError | IndexError | TypeError | AttributeError | ZeroDivisionError | ValueError
  | OverflowError

text \<open>
  A parameter value is an integer, a float, a string, or a list of those. Python's
  integers are unbounded (\<open>int\<close>). A float is modelled by the rational number it
  denotes: rounding and the non-finite values are outside the model, and no theorem below
  depends on the digits of a float result.
\<close>

datatype scalar = SInt int | SFloat rat | SStr string

datatype pvalue = Sc scalar | PList "scalar list"

text \<open>
  A section is a Python \<open>dict\<close>: keys are unique and keep their insertion order. It is
  an association list; \<open>params[key]\<close> is \<open>map_of\<close>, and \<open>params[key] = v\<close>
  is \<open>AList.update\<close>, which replaces in place or appends at the end.
\<close>

type_synonym pdict = "(string \<times> pvalue) list"

definition lookup :: "pdict \<Rightarrow> string \<Rightarrow> py_error + pvalue" where
  "lookup params key = (case map_of params key of None \<Rightarrow> Inl KeyError | Some v \<Rightarrow> Inr v)"

section \<open>Nesting geometry\<close>

text \<open>
  \<open>a / b\<close> on two integers is true division: the result is the IEEE 754 double
  nearest to the exact quotient, ties to even, and the division raises
  \<open>OverflowError\<close> when that double would not be finite. A double is modelled by the
  rational number it denotes.

  \<open>round_half_even x\<close> is the integer nearest to \<open>x\<close>, the even one of two that are
  equally near.
\<close>

definition round_half_even :: "rat \<Rightarrow> int" where
  "round_half_even x =
     (let f = \<lfloor>x\<rfloor>; d = x - of_int f
      in if d < 1 / 2 then f
         else if 1 / 2 < d then f + 1
         else if even f then f else f + 1)"

text \<open>
  The doubles near a quotient \<open>q\<close> with \<open>2^e \<le> |q| < 2^(e+1)\<close> are the multiples of
  \<open>2^(e-52)\<close> (53 significant bits), and of \<open>2^(-1074)\<close> in the subnormal range.
  \<open>ulp_exponent a b\<close> is that exponent for \<open>q = a / b\<close>, from the bit lengths of the
  operands.
\<close>

definition ulp_exponent :: "int \<Rightarrow> int \<Rightarrow> int" where
  "ulp_exponent a b =
     (let q = abs (of_int a / of_int b :: rat);
          e0 = bitlen (abs a) - bitlen (abs b);
          e = (if q < 2 powi e0 then e0 - 1 else e0)
      in max (e - 52) (- 1074))"

text \<open>
  \<open>a / b\<close>: \<open>ZeroDivisionError\<close> for a zero divisor, \<open>OverflowError\<close> when the
  rounded magnitude reaches \<open>2^1024\<close>, else the rounded quotient (a quotient that rounds
  to zero is zero).
\<close>

definition true_div :: "int \<Rightarrow> int \<Rightarrow> py_error + rat" where
  "true_div a b =
     (if b = 0 then Inl ZeroDivisionError
      else if a = 0 then Inr 0
      else
        (let q = abs (of_int a / of_int b :: rat);
             u = 2 powi ulp_exponent a b;
             r = of_int (round_half_even (q / u)) * u
         in if 2 ^ 1024 \<le> r then Inl OverflowError
            else Inr (if (a < 0) = (b < 0) then r else - r)))"

text \<open>
  \<open>math.ceil(a / b)\<close> on two integers: true division, then the ceiling of the double,
  which is exact.
\<close>

definition ceil_div :: "int \<Rightarrow> int \<Rightarrow> py_error + int" where
  "ceil_div a b = (case true_div a b of Inl e \<Rightarrow> Inl e | Inr x \<Rightarrow> Inr \<lceil>x\<rceil>)"

text \<open>\<open>suggest_nest_location\<close>, lines 320-326.\<close>

definition suggest_nest_location :: "int \<Rightarrow> int \<Rightarrow> int \<Rightarrow> py_error + int" where
  "suggest_nest_location parent_dim nest_dim ratio =
     (let parent_center = parent_dim div 2 in
      case ceil_div nest_dim ratio of
        Inl e \<Rightarrow> Inl e
      | Inr nest_size_in_parent \<Rightarrow> Inr (max 1 (parent_center - nest_size_in_parent div 2)))"

text \<open>
  The fit check of \<open>configure_geogrid\<close>, lines 580-584: the end indices of the nest in
  parent coordinates, and whether the warning branch is \<^emph>\<open>not\<close> taken.
\<close>

definition check_fit ::
  "int \<Rightarrow> int \<Rightarrow> int \<Rightarrow> int \<Rightarrow> int \<Rightarrow> int \<Rightarrow> int \<Rightarrow> py_error + (int \<times> int \<times> bool)" where
  "check_fit parent_we parent_sn nest_we nest_sn ratio i_start j_start =
     (case ceil_div nest_we ratio of
        Inl e \<Rightarrow> Inl e
      | Inr cw \<Rightarrow>
          (case ceil_div nest_sn ratio of
             Inl e \<Rightarrow> Inl e
           | Inr cs \<Rightarrow>
               (let i_end = i_start + cw - 1;
                    j_end = j_start + cs - 1
                in Inr (i_end, j_end, \<not> (i_end > parent_we \<or> j_end > parent_sn)))))"

text \<open>
  The adjustment of \<open>configure_geogrid\<close>, lines 589-599, on the branch where the
  operator accepts it: the start of each axis whose end index exceeds the parent is
  replaced, the other start is kept.
\<close>

definition repair ::
  "int \<Rightarrow> int \<Rightarrow> int \<Rightarrow> int \<Rightarrow> int \<Rightarrow> int \<Rightarrow> int \<Rightarrow> py_error + (int \<times> int)" where
  "repair parent_we parent_sn nest_we nest_sn ratio i_start j_start =
     (case check_fit parent_we parent_sn nest_we nest_sn ratio i_start j_start of
        Inl e \<Rightarrow> Inl e
      | Inr (i_end, j_end, fits) \<Rightarrow>
          (if \<not> fits then
             (case (if i_end > parent_we
                    then (case ceil_div nest_we ratio of
                            Inl e \<Rightarrow> Inl e
                          | Inr cw \<Rightarrow> Inr (max 1 (parent_we - cw + 1)))
                    else Inr i_start) of
                Inl e \<Rightarrow> Inl e
              | Inr new_i_start \<Rightarrow>
                  (case (if j_end > parent_sn
                         then (case ceil_div nest_sn ratio of
                                 Inl e \<Rightarrow> Inl e
                               | Inr cs \<Rightarrow> Inr (max 1 (parent_sn - cs + 1)))
                         else Inr j_start) of
                     Inl e \<Rightarrow> Inl e
                   | Inr new_j_start \<Rightarrow> Inr (new_i_start, new_j_start)))
           else Inr (i_start, j_start)))"

section \<open>The domain list synchronizer\<close>

text \<open>Sequencing of computations that can raise: the first exception wins.\<close>

definition seq :: "py_error + 'a \<Rightarrow> ('a \<Rightarrow> py_error + 'b) \<Rightarrow> py_error + 'b" where
  "seq m f = (case m of Inl e \<Rightarrow> Inl e | Inr x \<Rightarrow> f x)"

text \<open>
  \<open>len(v)\<close>: defined on lists and strings, a \<open>TypeError\<close> on numbers.
\<close>

fun py_len :: "pvalue \<Rightarrow> py_error + nat" where
  "py_len (PList xs) = Inr (length xs)"
| "py_len (Sc (SStr s)) = Inr (length s)"
| "py_len (Sc (SInt i)) = Inl TypeError"
| "py_len (Sc (SFloat x)) = Inl TypeError"

text \<open>
  Subscripting \<open>v[i]\<close>: a negative index counts from the end, an index out of range
  raises \<open>IndexError\<close>, an index that is not an integer and a value that is not a
  sequence raise \<open>TypeError\<close>. A string yields the one-character string at the index.
\<close>

definition norm_index :: "nat \<Rightarrow> int \<Rightarrow> py_error + nat" where
  "norm_index n i =
     (let j = (if i < 0 then i + int n else i)
      in if 0 \<le> j \<and> j < int n then Inr (nat j) else Inl IndexError)"

fun py_index :: "pvalue \<Rightarrow> scalar \<Rightarrow> py_error + scalar" where
  "py_index (PList xs) (SInt i) = seq (norm_index (length xs) i) (\<lambda>j. Inr (xs ! j))"
| "py_index (Sc (SStr s)) (SInt i) = seq (norm_index (length s) i) (\<lambda>j. Inr (SStr [s ! j]))"
| "py_index v i = Inl TypeError"

text \<open>
  The slice \<open>v[:n]\<close>: the first \<open>n\<close> entries, or all but the last \<open>-n\<close> when
  \<open>n\<close> is negative. It never raises on a list or a string.
\<close>

definition slice_to :: "int \<Rightarrow> 'a list \<Rightarrow> 'a list" where
  "slice_to n xs = (if 0 \<le> n then take (nat n) xs else take (nat (int (length xs) + n)) xs)"

fun py_slice_to :: "pvalue \<Rightarrow> int \<Rightarrow> py_error + pvalue" where
  "py_slice_to (PList xs) n = Inr (PList (slice_to n xs))"
| "py_slice_to (Sc (SStr s)) n = Inr (Sc (SStr (slice_to n s)))"
| "py_slice_to (Sc (SInt i)) n = Inl TypeError"
| "py_slice_to (Sc (SFloat x)) n = Inl TypeError"

text \<open>
  Arithmetic on scalars, as far as the growth heuristics use it. An integer and a float
  mix to a float; a string operand raises \<open>TypeError\<close>, except on the left of \<open>%\<close>,
  where Python formats the string: that operator is the parameter \<open>str_mod\<close> of the
  model, which returns the formatted string or the exception.
\<close>

fun py_sub :: "scalar \<Rightarrow> scalar \<Rightarrow> py_error + scalar" where
  "py_sub (SInt a) (SInt b) = Inr (SInt (a - b))"
| "py_sub (SInt a) (SFloat y) = Inr (SFloat (of_int a - y))"
| "py_sub (SFloat x) (SInt b) = Inr (SFloat (x - of_int b))"
| "py_sub (SFloat x) (SFloat y) = Inr (SFloat (x - y))"
| "py_sub a b = Inl TypeError"

fun py_add :: "scalar \<Rightarrow> scalar \<Rightarrow> py_error + scalar" where
  "py_add (SInt a) (SInt b) = Inr (SInt (a + b))"
| "py_add (SInt a) (SFloat y) = Inr (SFloat (of_int a + y))"
| "py_add (SFloat x) (SInt b) = Inr (SFloat (x + of_int b))"
| "py_add (SFloat x) (SFloat y) = Inr (SFloat (x + y))"
| "py_add a b = Inl TypeError"

definition float_floordiv :: "rat \<Rightarrow> rat \<Rightarrow> py_error + scalar" where
  "float_floordiv x y =
     (if y = 0 then Inl ZeroDivisionError else Inr (SFloat (of_int \<lfloor>x / y\<rfloor>)))"

fun py_floordiv :: "scalar \<Rightarrow> scalar \<Rightarrow> py_error + scalar" where
  "py_floordiv (SInt a) (SInt b) =
     (if b = 0 then Inl ZeroDivisionError else Inr (SInt (a div b)))"
| "py_floordiv (SInt a) (SFloat y) = float_floordiv (of_int a) y"
| "py_floordiv (SFloat x) (SInt b) = float_floordiv x (of_int b)"
| "py_floordiv (SFloat x) (SFloat y) = float_floordiv x y"
| "py_floordiv a b = Inl TypeError"

fun py_mod2 :: "(string \<Rightarrow> int \<Rightarrow> py_error + string) \<Rightarrow> scalar \<Rightarrow> py_error + scalar" where
  "py_mod2 str_mod (SInt a) = Inr (SInt (a mod 2))"
| "py_mod2 str_mod (SFloat x) = Inr (SFloat (x - 2 * of_int \<lfloor>x / 2\<rfloor>))"
| "py_mod2 str_mod (SStr s) = seq (str_mod s 2) (\<lambda>t. Inr (SStr t))"

text \<open>\<open>x == 0\<close>: a string never equals a number.\<close>

fun is_zero :: "scalar \<Rightarrow> bool" where
  "is_zero (SInt a) = (a = 0)"
| "is_zero (SFloat x) = (x = 0)"
| "is_zero (SStr s) = False"

text \<open>
  \<open>max(1, x)\<close> returns \<open>x\<close> when \<open>x > 1\<close> and the integer \<open>1\<close> otherwise;
  comparing a string with a number raises.
\<close>

fun py_max1 :: "scalar \<Rightarrow> py_error + scalar" where
  "py_max1 (SInt a) = Inr (if a > 1 then SInt a else SInt 1)"
| "py_max1 (SFloat x) = Inr (if x > 1 then SFloat x else SInt 1)"
| "py_max1 (SStr s) = Inl TypeError"

text \<open>The \<open>list_params\<close> of \<open>adjust_params_for_max_dom\<close>, in the source's order.\<close>

definition list_params :: "string list" where
  "list_params =
     [''parent_id'', ''parent_grid_ratio'', ''i_parent_start'',
      ''j_parent_start'', ''e_we'', ''e_sn'', ''geog_data_res'']"

text \<open>
  \<open>params[key].append(arg)\<close>: Python looks the method up before it evaluates the
  argument, so a value without \<open>append\<close> raises \<open>AttributeError\<close> first. The list
  is mutated in place: the key keeps its position.
\<close>

definition append_to :: "string \<Rightarrow> pdict \<Rightarrow> py_error + scalar \<Rightarrow> py_error + pdict" where
  "append_to key params arg =
     seq (lookup params key) (\<lambda>v.
       case v of
         PList xs \<Rightarrow> seq arg (\<lambda>x. Inr (AList.update key (PList (xs @ [x])) params))
       | Sc s \<Rightarrow> Inl AttributeError)"

text \<open>
  The second and third conjunct of the conditions on lines 126 and 131:
  \<open>len(params[key]) > 0 and len(params[dkey]) > len(params[key])\<close>, evaluated left to
  right, where \<open>n\<close> is \<open>len(params[key])\<close>.
\<close>

definition dim_covers :: "string \<Rightarrow> pdict \<Rightarrow> nat \<Rightarrow> py_error + bool" where
  "dim_covers dkey params n =
     (if n > 0 then seq (lookup params dkey) (\<lambda>d. seq (py_len d) (\<lambda>m. Inr (m > n)))
      else Inr False)"

text \<open>
  Lines 127-130 (and 132-135 with \<open>e_sn\<close>): the start that centres the new domain in
  its parent, where \<open>n\<close> is \<open>len(params[key])\<close>.
\<close>

definition centred_start :: "string \<Rightarrow> string \<Rightarrow> pdict \<Rightarrow> nat \<Rightarrow> py_error + pdict" where
  "centred_start key dkey params n =
     seq (lookup params ''parent_id'') (\<lambda>pid.
     seq (py_index pid (SInt (int n))) (\<lambda>p.
     seq (py_sub p (SInt 1)) (\<lambda>parent_idx.
     seq (lookup params dkey) (\<lambda>d.
     seq (py_index d parent_idx) (\<lambda>pd.
     seq (py_floordiv pd (SInt 2)) (\<lambda>center.
     seq (py_index d (SInt (int n - 1))) (\<lambda>cd.
     seq (lookup params ''parent_grid_ratio'') (\<lambda>pgr.
     seq (py_index pgr (SInt (int n - 1))) (\<lambda>r.
     seq (py_floordiv cd r) (\<lambda>child_size.
       append_to key params
         (seq (py_floordiv child_size (SInt 2)) (\<lambda>h.
          seq (py_sub center h) py_max1))))))))))))"

text \<open>
  The body of the \<open>while\<close> loop, lines 114-153. When no branch applies (an empty
  \<open>parent_id\<close> or \<open>parent_grid_ratio\<close>) the body changes nothing.
\<close>

definition append_entry ::
  "(string \<Rightarrow> int \<Rightarrow> py_error + string) \<Rightarrow> string \<Rightarrow> pdict \<Rightarrow> py_error + pdict" where
  "append_entry str_mod key params =
     seq (lookup params key) (\<lambda>v.
     seq (py_len v) (\<lambda>n.
       if key = ''parent_id'' \<and> n > 0 then
         append_to key params (Inr (SInt (int n)))
       else if key = ''parent_grid_ratio'' \<and> n > 0 then
         (if n = 1 then append_to key params (Inr (SInt 3))
          else append_to key params (py_index v (SInt (- 1))))
       else if key = ''i_parent_start'' \<or> key = ''j_parent_start'' then
         seq (if key = ''i_parent_start'' then dim_covers ''e_we'' params n else Inr False)
           (\<lambda>ci.
             if ci then centred_start key ''e_we'' params n
             else
               seq (if key = ''j_parent_start'' then dim_covers ''e_sn'' params n
                    else Inr False)
                 (\<lambda>cj.
                   if cj then centred_start key ''e_sn'' params n
                   else append_to key params (Inr (SInt 1))))
       else if key = ''e_we'' \<or> key = ''e_sn'' then
         (if n > 0 then
            seq (py_index v (SInt (- 1))) (\<lambda>last_val.
            seq (py_mod2 str_mod last_val) (\<lambda>r.
            seq (if is_zero r then py_add last_val (SInt 1) else Inr last_val) (\<lambda>last_val'.
              append_to key params (Inr last_val'))))
          else append_to key params (Inr (SInt 100)))
       else if key = ''geog_data_res'' then
         (if n > 0 then append_to key params (py_index v (SInt (- 1)))
          else append_to key params (Inr (SStr ''default'')))
       else Inr params))"

text \<open>
  The \<open>while len(params[key]) < max_dom\<close> loop, lines 113-153. It may run forever,
  so it is a partial function: \<open>None\<close> is the run that never returns.
\<close>

partial_function (option) grow ::
  "(string \<Rightarrow> int \<Rightarrow> py_error + string) \<Rightarrow> string \<Rightarrow> int \<Rightarrow> pdict \<Rightarrow> (py_error + pdict) option"
  where
  "grow str_mod key max_dom params =
     (case seq (lookup params key) py_len of
        Inl e \<Rightarrow> Some (Inl e)
      | Inr n \<Rightarrow>
          if int n < max_dom then
            (case append_entry str_mod key params of
               Inl e \<Rightarrow> Some (Inl e)
             | Inr params' \<Rightarrow> grow str_mod key max_dom params')
          else Some (Inr params))"

text \<open>Line 156: \<open>params[key] = params[key][:max_dom]\<close>.\<close>

definition trim :: "string \<Rightarrow> int \<Rightarrow> pdict \<Rightarrow> py_error + pdict" where
  "trim key max_dom params =
     seq (lookup params key) (\<lambda>v.
     seq (py_slice_to v max_dom) (\<lambda>v'. Inr (AList.update key v' params)))"

text \<open>The \<open>for key in list_params\<close> loop, lines 108-156.\<close>

fun adjust_keys ::
  "(string \<Rightarrow> int \<Rightarrow> py_error + string) \<Rightarrow> string list \<Rightarrow> int \<Rightarrow> pdict \<Rightarrow> (py_error + pdict) option"
  where
  "adjust_keys str_mod [] max_dom params = Some (Inr params)"
| "adjust_keys str_mod (key # keys) max_dom params =
     (if map_of params key = None then adjust_keys str_mod keys max_dom params
      else
        (case grow str_mod key max_dom params of
           None \<Rightarrow> None
         | Some (Inl e) \<Rightarrow> Some (Inl e)
         | Some (Inr params') \<Rightarrow>
             (case trim key max_dom params' of
                Inl e \<Rightarrow> Some (Inl e)
              | Inr params'' \<Rightarrow> adjust_keys str_mod keys max_dom params'')))"

definition adjust_params_for_max_dom ::
  "(string \<Rightarrow> int \<Rightarrow> py_error + string) \<Rightarrow> pdict \<Rightarrow> int \<Rightarrow> (py_error + pdict) option" where
  "adjust_params_for_max_dom str_mod params max_dom =
     adjust_keys str_mod list_params max_dom params"

text \<open>\<open>default_geogrid_params\<close>, lines 69-87.\<close>

definition default_geogrid_params :: pdict where
  "default_geogrid_params =
     [(''parent_id'', PList [SInt 1]),
      (''parent_grid_ratio'', PList [SInt 1]),
      (''i_parent_start'', PList [SInt 1]),
      (''j_parent_start'', PList [SInt 1]),
      (''e_we'', PList [SInt 100]),
      (''e_sn'', PList [SInt 100]),
      (''geog_data_res'', PList [SStr ''default'']),
      (''dx'', Sc (SInt 30000)),
      (''dy'', Sc (SInt 30000)),
      (''map_proj'', Sc (SStr ''lambert'')),
      (''ref_lat'', Sc (SFloat 34)),
      (''ref_lon'', Sc (SFloat (- 81))),
      (''truelat1'', Sc (SFloat 30)),
      (''truelat2'', Sc (SFloat 60)),
      (''stand_lon'', Sc (SFloat (- 81))),
      (''geog_data_path'', Sc (SStr ''/path/to/geog''))]"

text \<open>
  The string operator \<open>%\<close> on a string without a conversion specification: Python
  raises \<open>TypeError\<close>. This instance of the parameter answers so for every string; it
  serves to evaluate the model on dictionaries that hold no string with a specification.
\<close>

definition str_mod_plain :: "string \<Rightarrow> int \<Rightarrow> py_error + string" where
  "str_mod_plain s i = Inl TypeError"

text \<open>The defaults after synchronizing to three domains, as the model computes them.\<close>

definition geogrid_3_domains :: pdict where
  "geogrid_3_domains =
     [(''parent_id'', PList [SInt 1, SInt 1, SInt 2]),
      (''parent_grid_ratio'', PList [SInt 1, SInt 3, SInt 3]),
      (''i_parent_start'', PList [SInt 1, SInt 1, SInt 1]),
      (''j_parent_start'', PList [SInt 1, SInt 1, SInt 1]),
      (''e_we'', PList [SInt 100, SInt 101, SInt 101]),
      (''e_sn'', PList [SInt 100, SInt 101, SInt 101]),
      (''geog_data_res'', PList [SStr ''default'', SStr ''default'', SStr ''default'']),
      (''dx'', Sc (SInt 30000)),
      (''dy'', Sc (SInt 30000)),
      (''map_proj'', Sc (SStr ''lambert'')),
      (''ref_lat'', Sc (SFloat 34)),
      (''ref_lon'', Sc (SFloat (- 81))),
      (''truelat1'', Sc (SFloat 30)),
      (''truelat2'', Sc (SFloat 60)),
      (''stand_lon'', Sc (SFloat (- 81))),
      (''geog_data_path'', Sc (SStr ''/path/to/geog''))]"

subsection \<open>Predicates for the synchronizer's properties\<close>

text \<open>
  \<open>has_list_length params n\<close>: every list parameter that is present holds a list of
  \<open>n\<close> entries. \<open>nonempty_list params key\<close>: the key, when present, holds a
  non-empty list. \<open>is_dict\<close>: the keys are unique, as in every Python \<open>dict\<close>.
\<close>

definition has_list_length :: "pdict \<Rightarrow> nat \<Rightarrow> bool" where
  "has_list_length params n =
     list_all (\<lambda>key. case map_of params key of
                        None \<Rightarrow> True
                      | Some (PList xs) \<Rightarrow> length xs = n
                      | Some (Sc s) \<Rightarrow> False) list_params"

definition nonempty_list :: "pdict \<Rightarrow> string \<Rightarrow> bool" where
  "nonempty_list params key =
     (case map_of params key of
        None \<Rightarrow> True
      | Some (PList xs) \<Rightarrow> xs \<noteq> []
      | Some (Sc s) \<Rightarrow> False)"

definition is_dict :: "pdict \<Rightarrow> bool" where
  "is_dict params = distinct (map fst params)"

text \<open>
  \<open>appended key params p1\<close>: \<open>p1\<close> is \<open>params\<close> with one entry appended to the
  list at \<open>key\<close>. \<open>grown_at key params p'\<close>: the two dictionaries have the same keys
  in the same order, agree outside \<open>key\<close>, and the value at \<open>key\<close> is the same or a
  list extended at its end. \<open>ext_of a b\<close>: the looked-up value \<open>b\<close> is \<open>a\<close> or
  extends the list \<open>a\<close>.
\<close>

definition appended :: "string \<Rightarrow> pdict \<Rightarrow> pdict \<Rightarrow> bool" where
  "appended key params p1 \<longleftrightarrow>
     (\<exists>xs x. map_of params key = Some (PList xs) \<and>
        p1 = AList.update key (PList (xs @ [x])) params)"

definition ext_of :: "pvalue option \<Rightarrow> pvalue option \<Rightarrow> bool" where
  "ext_of a b \<longleftrightarrow> b = a \<or> (\<exists>xs ys. a = Some (PList xs) \<and> b = Some (PList (xs @ ys)))"

definition grown_at :: "string \<Rightarrow> pdict \<Rightarrow> pdict \<Rightarrow> bool" where
  "grown_at key params p' \<longleftrightarrow>
     map fst p' = map fst params \<and>
     (\<forall>k. k \<noteq> key \<longrightarrow> map_of p' k = map_of params k) \<and>
     ext_of (map_of params key) (map_of p' key)"

text \<open>
  \<open>growable params\<close>: what the growth heuristics consult is there. A list of starts
  comes with the list of sizes of its axis (lines 126 and 131 subscript
  \<open>params["e_we"]\<close> and \<open>params["e_sn"]\<close> without a test), and the last entry of a
  list of sizes is a number (line 142 applies \<open>%\<close> to it).
\<close>

fun is_number :: "scalar \<Rightarrow> bool" where
  "is_number (SStr s) = False"
| "is_number (SInt i) = True"
| "is_number (SFloat x) = True"

definition ends_with_number :: "pdict \<Rightarrow> string \<Rightarrow> bool" where
  "ends_with_number params key =
     (case map_of params key of
        Some (PList xs) \<Rightarrow> xs = [] \<or> is_number (last xs)
      | Some (Sc s) \<Rightarrow> True
      | None \<Rightarrow> True)"

definition growable :: "pdict \<Rightarrow> bool" where
  "growable params \<longleftrightarrow>
     (map_of params ''i_parent_start'' \<noteq> None \<longrightarrow> map_of params ''e_we'' \<noteq> None) \<and>
     (map_of params ''j_parent_start'' \<noteq> None \<longrightarrow> map_of params ''e_sn'' \<noteq> None) \<and>
     ends_with_number params ''e_we'' \<and> ends_with_number params ''e_sn''"

section \<open>The namelist codec\<close>

subsection \<open>Strings\<close>

text \<open>
  Text is modelled as ASCII. \<open>str.strip()\<close> removes the whitespace characters at both
  ends; the ASCII ones are tab, line feed, vertical tab, form feed, carriage return, the
  four separators \<open>0x1C\<close>-\<open>0x1F\<close> and the space.
\<close>

definition is_space :: "char \<Rightarrow> bool" where
  "is_space c \<longleftrightarrow>
     c \<in> set [CHR 0x09, CHR 0x0A, CHR 0x0B, CHR 0x0C, CHR 0x0D,
              CHR 0x1C, CHR 0x1D, CHR 0x1E, CHR 0x1F, CHR 0x20]"

definition strip :: "string \<Rightarrow> string" where
  "strip s = rev (dropWhile is_space (rev (dropWhile is_space s)))"

definition startswith :: "string \<Rightarrow> string \<Rightarrow> bool" where
  "startswith s p \<longleftrightarrow> take (length p) s = p"

definition endswith :: "string \<Rightarrow> string \<Rightarrow> bool" where
  "endswith s p \<longleftrightarrow> length p \<le> length s \<and> drop (length s - length p) s = p"

definition lower_char :: "char \<Rightarrow> char" where
  "lower_char c =
     (case map_of (zip ''ABCDEFGHIJKLMNOPQRSTUVWXYZ'' ''abcdefghijklmnopqrstuvwxyz'') c of
        None \<Rightarrow> c
      | Some d \<Rightarrow> d)"

definition lower :: "string \<Rightarrow> string" where
  "lower s = map lower_char s"

text \<open>
  \<open>s.split(c, 1)\<close> when it yields two parts, that is when \<open>c\<close> occurs in \<open>s\<close>: the
  text before the first \<open>c\<close> and the text after it.
\<close>

definition split_first :: "char \<Rightarrow> string \<Rightarrow> (string \<times> string) option" where
  "split_first c s =
     (if c \<in> set s
      then Some (takeWhile (\<lambda>x. x \<noteq> c) s, tl (dropWhile (\<lambda>x. x \<noteq> c) s))
      else None)"

text \<open>\<open>s.split(c)\<close>: the pieces between the occurrences of \<open>c\<close>, at least one.\<close>

fun split_on :: "char \<Rightarrow> string \<Rightarrow> string list" where
  "split_on c [] = [] # []"
| "split_on c (x # xs) =
     (if x = c then [] # split_on c xs
      else (case split_on c xs of
              [] \<Rightarrow> [x] # []
            | y # ys \<Rightarrow> (x # y) # ys))"

text \<open>\<open>sep.join(parts)\<close>.\<close>

fun join :: "string \<Rightarrow> string list \<Rightarrow> string" where
  "join sep [] = []"
| "join sep [p] = p"
| "join sep (p # q # ps) = p @ sep @ join sep (q # ps)"

text \<open>
  The lines of a text file opened for reading: a line ends at a line feed, a carriage
  return, or the pair of them. The model breaks at every one of the two characters, which
  gives the same lines and, for a pair, one more empty line; every line is stripped and
  an empty line is skipped by the reader, so the reader sees the same.
\<close>

definition newline :: string where
  "newline = [CHR 0x0A]"

definition is_line_break :: "char \<Rightarrow> bool" where
  "is_line_break c \<longleftrightarrow> c = CHR 0x0A \<or> c = CHR 0x0D"

fun file_lines :: "string \<Rightarrow> string list" where
  "file_lines [] = [] # []"
| "file_lines (x # xs) =
     (if is_line_break x then [] # file_lines xs
      else (case file_lines xs of
              [] \<Rightarrow> [x] # []
            | y # ys \<Rightarrow> (x # y) # ys))"

subsection \<open>Numbers as text\<close>

text \<open>
  \<open>str(i)\<close> and \<open>int(v)\<close> for integers, without the limit on the number of digits
  that recent interpreters put on both conversions. \<open>int\<close> skips surrounding
  whitespace, takes a sign, and accepts single underscores between digits; on any other
  text it raises \<open>ValueError\<close>, here \<open>None\<close>.
\<close>

definition digit_char :: "nat \<Rightarrow> char" where
  "digit_char d = ''0123456789'' ! d"

fun dec_digits :: "nat \<Rightarrow> string" where
  "dec_digits n =
     (if n < 10 then [digit_char n] else dec_digits (n div 10) @ [digit_char (n mod 10)])"

declare dec_digits.simps [simp del]

definition str_int :: "int \<Rightarrow> string" where
  "str_int i = (if i < 0 then CHR ''-'' # dec_digits (nat (- i)) else dec_digits (nat i))"

definition is_digit :: "char \<Rightarrow> bool" where
  "is_digit c \<longleftrightarrow> c \<in> set ''0123456789''"

definition digit_val :: "char \<Rightarrow> nat" where
  "digit_val c = (case map_of (zip ''0123456789'' [0, 1, 2, 3, 4, 5, 6, 7, 8, 9]) c of None \<Rightarrow> 0 | Some d \<Rightarrow> d)"

definition digits_val :: "string \<Rightarrow> nat" where
  "digits_val s = foldl (\<lambda>a c. 10 * a + digit_val c) 0 s"

fun int_body :: "string \<Rightarrow> bool" where
  "int_body [] = False"
| "int_body [c] = is_digit c"
| "int_body (c # d # cs) =
     (is_digit c \<and> (if d = CHR ''_'' then int_body cs else int_body (d # cs)))"

definition py_int :: "string \<Rightarrow> int option" where
  "py_int v =
     (let t = strip v;
          neg = startswith t ''-'';
          body = (if startswith t ''-'' \<or> startswith t ''+'' then tl t else t)
      in if int_body body
         then Some ((if neg then - 1 else 1) *
                    int (digits_val (filter (\<lambda>c. c \<noteq> CHR ''_'') body)))
         else None)"

subsection \<open>Reading\<close>

text \<open>
  Lines 217-228 and 233-243: a token in matching quotes is a string without them;
  otherwise a token with a point is tried as a float and a token without as an integer,
  and a token that does not convert stays a string. \<open>float(v)\<close> is the parameter
  \<open>py_float\<close>; \<open>None\<close> is its \<open>ValueError\<close>.
\<close>

definition quoted :: "string \<Rightarrow> bool" where
  "quoted v \<longleftrightarrow>
     (startswith v [CHR 0x27] \<and> endswith v [CHR 0x27]) \<or>
     (startswith v [CHR 0x22] \<and> endswith v [CHR 0x22])"

definition parse_scalar :: "(string \<Rightarrow> rat option) \<Rightarrow> string \<Rightarrow> scalar" where
  "parse_scalar py_float v =
     (if quoted v then SStr (butlast (tl v))
      else if CHR ''.'' \<in> set v then
        (case py_float v of None \<Rightarrow> SStr v | Some x \<Rightarrow> SFloat x)
      else
        (case py_int v of None \<Rightarrow> SStr v | Some i \<Rightarrow> SInt i))"

text \<open>Lines 203-243: the value of a \<open>name = value\<close> line.\<close>

definition parse_value :: "(string \<Rightarrow> rat option) \<Rightarrow> string \<Rightarrow> pvalue" where
  "parse_value py_float text =
     (let param_value = strip text;
          param_value = (if endswith param_value '','' then butlast param_value
                         else param_value)
      in if CHR '','' \<in> set param_value
         then PList (map (\<lambda>v. parse_scalar py_float (strip v)) (split_on CHR '','' param_value))
         else Sc (parse_scalar py_float param_value))"

text \<open>The four dictionaries, and the one that \<open>current_section\<close> refers to.\<close>

datatype sect = Share | Geogrid | Ungrib | Metgrid

record store =
  share_params :: pdict
  geogrid_params :: pdict
  ungrib_params :: pdict
  metgrid_params :: pdict

definition empty_store :: store where
  "empty_store =
     \<lparr>share_params = [], geogrid_params = [], ungrib_params = [], metgrid_params = []\<rparr>"

fun get_section :: "sect \<Rightarrow> store \<Rightarrow> pdict" where
  "get_section Share st = share_params st"
| "get_section Geogrid st = geogrid_params st"
| "get_section Ungrib st = ungrib_params st"
| "get_section Metgrid st = metgrid_params st"

fun set_param :: "sect \<Rightarrow> string \<Rightarrow> pvalue \<Rightarrow> store \<Rightarrow> store" where
  "set_param Share k v st = st\<lparr>share_params := AList.update k v (share_params st)\<rparr>"
| "set_param Geogrid k v st = st\<lparr>geogrid_params := AList.update k v (geogrid_params st)\<rparr>"
| "set_param Ungrib k v st = st\<lparr>ungrib_params := AList.update k v (ungrib_params st)\<rparr>"
| "set_param Metgrid k v st = st\<lparr>metgrid_params := AList.update k v (metgrid_params st)\<rparr>"

text \<open>
  The body of the loop over the lines, lines 172-243, on the state made of the four
  dictionaries and the current section (\<open>None\<close> for Python's \<open>None\<close>).
\<close>

definition parse_line ::
  "(string \<Rightarrow> rat option) \<Rightarrow> string \<Rightarrow> store \<times> sect option \<Rightarrow> store \<times> sect option" where
  "parse_line py_float raw state =
     (let line = strip raw; st = fst state; current_section = snd state in
      if line = [] \<or> startswith line ''!'' then state
      else if startswith line ''&'' then
        (let section_name = lower (tl line) in
         if section_name = ''share'' then (st, Some Share)
         else if section_name = ''geogrid'' then (st, Some Geogrid)
         else if section_name = ''ungrib'' then (st, Some Ungrib)
         else if section_name = ''metgrid'' then (st, Some Metgrid)
         else state)
      else if line = ''/'' \<or> startswith line ''/'' then (st, None)
      else
        (case current_section of
           None \<Rightarrow> state
         | Some sec \<Rightarrow>
             (case split_first CHR ''='' line of
                None \<Rightarrow> state
              | Some (name_part, value_part) \<Rightarrow>
                  (set_param sec (strip name_part) (parse_value py_float value_part) st,
                   current_section))))"

definition parse_lines ::
  "(string \<Rightarrow> rat option) \<Rightarrow> string list \<Rightarrow> store \<times> sect option \<Rightarrow> store \<times> sect option" where
  "parse_lines py_float lines state = foldl (\<lambda>s raw. parse_line py_float raw s) state lines"

text \<open>Lines 246-251: a bare scalar under one of the ten list keys becomes a list.\<close>

definition wrap_keys :: "string list" where
  "wrap_keys =
     [''start_date'', ''end_date'', ''parent_id'', ''parent_grid_ratio'',
      ''i_parent_start'', ''j_parent_start'', ''e_we'', ''e_sn'', ''geog_data_res'',
      ''fg_name'']"

definition wrap_entry :: "string \<times> pvalue \<Rightarrow> string \<times> pvalue" where
  "wrap_entry kv =
     (case kv of
        (key, Sc s) \<Rightarrow> if key \<in> set wrap_keys then (key, PList [s]) else (key, Sc s)
      | (key, PList xs) \<Rightarrow> (key, PList xs))"

definition wrap_store :: "store \<Rightarrow> store" where
  "wrap_store st =
     \<lparr>share_params = map wrap_entry (share_params st),
      geogrid_params = map wrap_entry (geogrid_params st),
      ungrib_params = map wrap_entry (ungrib_params st),
      metgrid_params = map wrap_entry (metgrid_params st)\<rparr>"

text \<open>
  \<open>read_existing_namelist\<close>, lines 160-253, on the text of the file (the file is
  taken to exist and to be readable).
\<close>

definition read_existing_namelist :: "(string \<Rightarrow> rat option) \<Rightarrow> string \<Rightarrow> store" where
  "read_existing_namelist py_float text =
     wrap_store (fst (parse_lines py_float (file_lines text) (empty_store, None)))"

subsection \<open>Writing\<close>

text \<open>
  \<open>format_value\<close>, lines 723-733. \<open>str\<close> of a float is the parameter
  \<open>float_str\<close>; \<open>str\<close> of a string is the string.
\<close>

fun is_str :: "scalar \<Rightarrow> bool" where
  "is_str (SStr s) = True"
| "is_str (SInt i) = False"
| "is_str (SFloat x) = False"

fun py_str :: "(rat \<Rightarrow> string) \<Rightarrow> scalar \<Rightarrow> string" where
  "py_str float_str (SStr s) = s"
| "py_str float_str (SInt i) = str_int i"
| "py_str float_str (SFloat x) = float_str x"

definition quote :: "string \<Rightarrow> string" where
  "quote s = [CHR 0x27] @ s @ [CHR 0x27]"

fun format_value :: "(rat \<Rightarrow> string) \<Rightarrow> pvalue \<Rightarrow> string" where
  "format_value float_str (PList xs) =
     (if list_all is_str xs then join '', '' (map (\<lambda>x. quote (py_str float_str x)) xs)
      else join '', '' (map (py_str float_str) xs))"
| "format_value float_str (Sc (SStr s)) = quote s"
| "format_value float_str (Sc (SInt i)) = str_int i"
| "format_value float_str (Sc (SFloat x)) = float_str x"

text \<open>
  The text written between \<open>open\<close> and the end of the \<open>with\<close> block, lines 737-759,
  as the sequence of \<open>f.write\<close> calls.
\<close>

definition param_line :: "(rat \<Rightarrow> string) \<Rightarrow> string \<times> pvalue \<Rightarrow> string" where
  "param_line float_str kv =
     '' '' @ fst kv @ '' = '' @ format_value float_str (snd kv) @ '','' @ newline"

definition section_writes :: "(rat \<Rightarrow> string) \<Rightarrow> string \<Rightarrow> pdict \<Rightarrow> string \<Rightarrow> string list" where
  "section_writes float_str name params closing =
     [''&'' @ name @ newline] @ map (param_line float_str) params @ [closing]"

definition namelist_writes :: "(rat \<Rightarrow> string) \<Rightarrow> store \<Rightarrow> string list" where
  "namelist_writes float_str st =
     section_writes float_str ''share'' (share_params st) (''/'' @ newline @ newline) @
     section_writes float_str ''geogrid'' (geogrid_params st) (''/'' @ newline @ newline) @
     section_writes float_str ''ungrib'' (ungrib_params st) (''/'' @ newline @ newline) @
     section_writes float_str ''metgrid'' (metgrid_params st) (''/'' @ newline)"

text \<open>
  \<open>write_namelist_wps\<close>, lines 719-762. The environment is the outcome of
  \<open>open(filename, 'w')\<close>: \<open>Inl e\<close> when it raises, with \<open>e\<close> the text of the
  exception, \<open>Inr ()\<close> when the file is open, after which the writes are taken to
  succeed. The result is the content of the file, or the exit of the process with the
  status given to \<open>sys.exit\<close> after the message printed before it.
\<close>

datatype write_result = Written string | Exited int string

definition write_namelist_wps ::
  "(rat \<Rightarrow> string) \<Rightarrow> string + unit \<Rightarrow> string \<Rightarrow> store \<Rightarrow> write_result" where
  "write_namelist_wps float_str opened filename st =
     (case opened of
        Inl e \<Rightarrow> Exited 1 (''Error writing to '' @ filename @ '': '' @ e)
      | Inr u \<Rightarrow> Written (concat (namelist_writes float_str st)))"

subsection \<open>Predicates for the reader's properties\<close>

text \<open>
  \<open>opens_section raw\<close>: the stripped line starts with \<open>&\<close>. \<open>known_section raw\<close>:
  the rest of the stripped line is, in lower case, one of the four section names.
\<close>

definition opens_section :: "string \<Rightarrow> bool" where
  "opens_section raw \<longleftrightarrow> startswith (strip raw) ''&''"

definition known_section :: "string \<Rightarrow> bool" where
  "known_section raw \<longleftrightarrow>
     lower (tl (strip raw)) \<in> set [''share'', ''geogrid'', ''ungrib'', ''metgrid'']"

subsection \<open>Predicates for the round trip\<close>

text \<open>\<open>clean s\<close>: the text is not empty and has no whitespace at either end.\<close>

definition clean :: "string \<Rightarrow> bool" where
  "clean s \<longleftrightarrow> s \<noteq> [] \<and> \<not> is_space (hd s) \<and> \<not> is_space (last s)"

text \<open>
  \<open>plain_text s\<close>: no comma and no line break in the text. \<open>float_ok\<close>: the float
  conversions agree on \<open>x\<close>, and the text of \<open>x\<close> has a point, no comma, no line
  break, no whitespace at its ends and no quotes around it. \<open>scalar_ok\<close>: a string is
  plain, a float is as above.
\<close>

definition plain_text :: "string \<Rightarrow> bool" where
  "plain_text s = list_all (\<lambda>c. c \<noteq> CHR '','' \<and> \<not> is_line_break c) s"

definition float_ok :: "(rat \<Rightarrow> string) \<Rightarrow> (string \<Rightarrow> rat option) \<Rightarrow> rat \<Rightarrow> bool" where
  "float_ok float_str py_float x \<longleftrightarrow>
     py_float (float_str x) = Some x \<and> CHR ''.'' \<in> set (float_str x) \<and>
     plain_text (float_str x) \<and> clean (float_str x) \<and> \<not> quoted (float_str x)"

fun scalar_ok :: "(rat \<Rightarrow> string) \<Rightarrow> (string \<Rightarrow> rat option) \<Rightarrow> scalar \<Rightarrow> bool" where
  "scalar_ok float_str py_float (SStr s) = plain_text s"
| "scalar_ok float_str py_float (SInt i) = True"
| "scalar_ok float_str py_float (SFloat x) = float_ok float_str py_float x"

text \<open>
  \<open>value_ok\<close>: a scalar sits under a key that is not one of the ten list keys; a list
  is not empty, has one entry only under one of the ten list keys, and holds strings only
  or no string at all. \<open>key_ok\<close>: the key is not empty, has no whitespace at its ends,
  holds no \<open>=\<close> and no line break, and does not start with \<open>!\<close>, \<open>&\<close> or \<open>/\<close>.
\<close>

fun value_ok :: "(rat \<Rightarrow> string) \<Rightarrow> (string \<Rightarrow> rat option) \<Rightarrow> string \<Rightarrow> pvalue \<Rightarrow> bool" where
  "value_ok float_str py_float key (Sc s) =
     (scalar_ok float_str py_float s \<and> key \<notin> set wrap_keys)"
| "value_ok float_str py_float key (PList xs) =
     (xs \<noteq> [] \<and> (length xs = 1 \<longrightarrow> key \<in> set wrap_keys) \<and>
      (list_all is_str xs \<or> list_all (\<lambda>x. \<not> is_str x) xs) \<and>
      list_all (scalar_ok float_str py_float) xs)"

definition key_ok :: "string \<Rightarrow> bool" where
  "key_ok k \<longleftrightarrow>
     clean k \<and> list_all (\<lambda>c. c \<noteq> CHR ''='' \<and> \<not> is_line_break c) k \<and>
     hd k \<notin> set ''!&/''"

definition section_ok :: "(rat \<Rightarrow> string) \<Rightarrow> (string \<Rightarrow> rat option) \<Rightarrow> pdict \<Rightarrow> bool" where
  "section_ok float_str py_float params \<longleftrightarrow>
     is_dict params \<and>
     list_all (\<lambda>kv. key_ok (fst kv) \<and> value_ok float_str py_float (fst kv) (snd kv)) params"

definition store_ok :: "(rat \<Rightarrow> string) \<Rightarrow> (string \<Rightarrow> rat option) \<Rightarrow> store \<Rightarrow> bool" where
  "store_ok float_str py_float st \<longleftrightarrow>
     section_ok float_str py_float (share_params st) \<and>
     section_ok float_str py_float (geogrid_params st) \<and>
     section_ok float_str py_float (ungrib_params st) \<and>
     section_ok float_str py_float (metgrid_params st)"

text \<open>
  \<open>stored_form v\<close>: what the loop over the lines stores for the written value \<open>v\<close>,
  before the lists of one entry are restored: a list of one entry is read as a scalar.
\<close>

fun stored_form :: "pvalue \<Rightarrow> pvalue" where
  "stored_form (PList [x]) = Sc x"
| "stored_form v = v"

text \<open>
  \<open>put_section sec d st\<close>: the store with the dictionary of section \<open>sec\<close> replaced.
  \<open>param_text\<close>: the line written for a parameter, without its line feed.
\<close>

fun put_section :: "sect \<Rightarrow> pdict \<Rightarrow> store \<Rightarrow> store" where
  "put_section Share d st = st\<lparr>share_params := d\<rparr>"
| "put_section Geogrid d st = st\<lparr>geogrid_params := d\<rparr>"
| "put_section Ungrib d st = st\<lparr>ungrib_params := d\<rparr>"
| "put_section Metgrid d st = st\<lparr>metgrid_params := d\<rparr>"

definition param_text :: "(rat \<Rightarrow> string) \<Rightarrow> string \<times> pvalue \<Rightarrow> string" where
  "param_text float_str kv =
     '' '' @ fst kv @ '' = '' @ format_value float_str (snd kv) @ '',''"

subsection \<open>Instances of the float conversions\<close>

text \<open>
  Two instances of the parameters, for evaluating the model on concrete texts.
  \<open>float_str_whole\<close> is \<open>str\<close> on a float that is a whole number below \<open>10^16\<close>
  in absolute value: the integer followed by \<open>.0\<close>. \<open>py_float_plain\<close> is \<open>float\<close>
  on a plain decimal literal (sign, digits, point, digits): the value of the literal,
  which is what Python returns whenever that value is a double. On any other text it
  answers \<open>None\<close>, so it is used only on texts whose floats have this form.
\<close>

definition float_str_whole :: "rat \<Rightarrow> string" where
  "float_str_whole x = str_int \<lfloor>x\<rfloor> @ ''.0''"

definition py_float_plain :: "string \<Rightarrow> rat option" where
  "py_float_plain v =
     (let t = strip v;
          neg = startswith t ''-'';
          body = (if startswith t ''-'' \<or> startswith t ''+'' then tl t else t);
          ip = takeWhile is_digit body;
          rest = dropWhile is_digit body
      in if startswith rest ''.'' \<and> list_all is_digit (tl rest) \<and> (ip \<noteq> [] \<or> tl rest \<noteq> [])
         then Some ((if neg then - 1 else 1) *
                    (of_nat (digits_val ip) +
                     of_nat (digits_val (tl rest)) / 10 ^ length (tl rest)))
         else None)"

text \<open>\<open>default_ungrib_params\<close> and \<open>default_metgrid_params\<close>, lines 89-99.\<close>

definition default_ungrib_params :: pdict where
  "default_ungrib_params = [(''out_format'', Sc (SStr ''WPS'')), (''prefix'', Sc (SStr ''FILE''))]"

definition default_metgrid_params :: pdict where
  "default_metgrid_params =
     [(''fg_name'', PList [SStr ''FILE'']), (''io_form_metgrid'', Sc (SInt 2))]"

text \<open>
  \<open>default_share_params\<close>, lines 54-67; the two dates come from the clock and are
  arguments of the model.
\<close>

definition default_share_params :: "string \<Rightarrow> string \<Rightarrow> pdict" where
  "default_share_params now tomorrow =
     [(''wrf_core'', Sc (SStr ''ARW'')),
      (''max_dom'', Sc (SInt 1)),
      (''start_date'', PList [SStr now]),
      (''end_date'', PList [SStr tomorrow]),
      (''interval_seconds'', Sc (SInt 21600)),
      (''io_form_geogrid'', Sc (SInt 2)),
      (''debug_level'', Sc (SInt 0))]"

text \<open>
  The store of built-in defaults at a given time, and the same store after the operator
  has entered a data path that holds a comma.
\<close>

definition default_store :: store where
  "default_store =
     \<lparr>share_params = default_share_params ''2024-01-01_00:00:00'' ''2024-01-02_00:00:00'',
      geogrid_params = default_geogrid_params,
      ungrib_params = default_ungrib_params,
      metgrid_params = default_metgrid_params\<rparr>"

definition comma_path_store :: store where
  "comma_path_store =
     default_store\<lparr>geogrid_params :=
       AList.update ''geog_data_path'' (Sc (SStr ''/data/geog,v2'')) default_geogrid_params\<rparr>"

text \<open>
  Writing a store to a file that opens, then reading the file: \<open>None\<close> when the
  writer ends the process.
\<close>

definition write_then_read ::
  "(rat \<Rightarrow> string) \<Rightarrow> (string \<Rightarrow> rat option) \<Rightarrow> string \<Rightarrow> store \<Rightarrow> store option" where
  "write_then_read float_str py_float filename st =
     (case write_namelist_wps float_str (Inr ()) filename st of
        Written text \<Rightarrow> Some (read_existing_namelist py_float text)
      | Exited status message \<Rightarrow> None)"

section \<open>Facts about the synchronizer\<close>

lemma seq_Inl [simp]: "seq (Inl e) f = Inl e" by (simp add: seq_def)
lemma seq_Inr [simp]: "seq (Inr x) f = f x" by (simp add: seq_def)

lemma seq_eq_Inr: "seq m f = Inr y \<longleftrightarrow> (\<exists>x. m = Inr x \<and> f x = Inr y)"
  by (cases m) simp_all

lemma lookup_eq_Inr: "lookup params key = Inr v \<longleftrightarrow> map_of params key = Some v"
  by (simp add: lookup_def split: option.splits)

lemma append_to_eq_Inr:
  "append_to key params arg = Inr p1 \<longleftrightarrow>
     (\<exists>xs x. map_of params key = Some (PList xs) \<and> arg = Inr x \<and>
        p1 = AList.update key (PList (xs @ [x])) params)"
proof (cases "map_of params key")
  case None
  then show ?thesis by (simp add: append_to_def lookup_def)
next
  case (Some v)
  then show ?thesis
    by (cases v; cases arg) (auto simp add: append_to_def lookup_def)
qed

lemma centred_start_Inr:
  "centred_start key dkey params n = Inr p1 \<Longrightarrow>
     \<exists>xs x. map_of params key = Some (PList xs) \<and> p1 = AList.update key (PList (xs @ [x])) params"
  unfolding centred_start_def seq_eq_Inr append_to_eq_Inr by blast

lemma append_entry_unfold:
  assumes "append_entry sm key params = Inr p1"
  obtains v n where "map_of params key = Some v" "py_len v = Inr n"
    "(if key = ''parent_id'' \<and> n > 0 then
         append_to key params (Inr (SInt (int n)))
       else if key = ''parent_grid_ratio'' \<and> n > 0 then
         (if n = 1 then append_to key params (Inr (SInt 3))
          else append_to key params (py_index v (SInt (- 1))))
       else if key = ''i_parent_start'' \<or> key = ''j_parent_start'' then
         seq (if key = ''i_parent_start'' then dim_covers ''e_we'' params n else Inr False)
           (\<lambda>ci.
             if ci then centred_start key ''e_we'' params n
             else
               seq (if key = ''j_parent_start'' then dim_covers ''e_sn'' params n
                    else Inr False)
                 (\<lambda>cj.
                   if cj then centred_start key ''e_sn'' params n
                   else append_to key params (Inr (SInt 1))))
       else if key = ''e_we'' \<or> key = ''e_sn'' then
         (if n > 0 then
            seq (py_index v (SInt (- 1))) (\<lambda>last_val.
            seq (py_mod2 sm last_val) (\<lambda>r.
            seq (if is_zero r then py_add last_val (SInt 1) else Inr last_val) (\<lambda>last_val'.
              append_to key params (Inr last_val'))))
          else append_to key params (Inr (SInt 100)))
       else if key = ''geog_data_res'' then
         (if n > 0 then append_to key params (py_index v (SInt (- 1)))
          else append_to key params (Inr (SStr ''default'')))
       else Inr params) = Inr p1"
  using assms unfolding append_entry_def seq_eq_Inr lookup_eq_Inr by blast

lemma append_to_appended: "append_to key params arg = Inr p1 \<Longrightarrow> appended key params p1"
  unfolding appended_def append_to_eq_Inr by blast

lemma centred_start_appended: "centred_start key dkey params n = Inr p1 \<Longrightarrow> appended key params p1"
  unfolding appended_def by (rule centred_start_Inr)

lemma start_branch_appended:
  assumes "seq c1 (\<lambda>ci. if ci then centred_start key ''e_we'' params n
             else seq c2 (\<lambda>cj. if cj then centred_start key ''e_sn'' params n
                   else append_to key params (Inr (SInt 1)))) = Inr p1"
  shows "appended key params p1"
  using assms
  by (auto simp add: seq_eq_Inr split: if_splits dest: centred_start_appended append_to_appended)

lemma size_branch_appended:
  assumes "(if n > 0 then
            seq a (\<lambda>last_val.
            seq (b last_val) (\<lambda>r.
            seq (c r last_val) (\<lambda>last_val'.
              append_to key params (Inr last_val'))))
          else append_to key params (Inr (SInt 100))) = Inr p1"
  shows "appended key params p1"
  using assms
  by (auto simp add: seq_eq_Inr split: if_splits dest: append_to_appended)

lemma append_entry_Inr:
  assumes "append_entry sm key params = Inr p1"
  shows "appended key params p1
         \<or> (p1 = params \<and>
             (key \<notin> set list_params \<or>
              ((key = ''parent_id'' \<or> key = ''parent_grid_ratio'') \<and>
               (\<exists>v. map_of params key = Some v \<and> py_len v = Inr 0))))"
proof -
  from assms obtain v n where v: "map_of params key = Some v" and n: "py_len v = Inr n"
    and body: "(if key = ''parent_id'' \<and> n > 0 then
         append_to key params (Inr (SInt (int n)))
       else if key = ''parent_grid_ratio'' \<and> n > 0 then
         (if n = 1 then append_to key params (Inr (SInt 3))
          else append_to key params (py_index v (SInt (- 1))))
       else if key = ''i_parent_start'' \<or> key = ''j_parent_start'' then
         seq (if key = ''i_parent_start'' then dim_covers ''e_we'' params n else Inr False)
           (\<lambda>ci.
             if ci then centred_start key ''e_we'' params n
             else
               seq (if key = ''j_parent_start'' then dim_covers ''e_sn'' params n
                    else Inr False)
                 (\<lambda>cj.
                   if cj then centred_start key ''e_sn'' params n
                   else append_to key params (Inr (SInt 1))))
       else if key = ''e_we'' \<or> key = ''e_sn'' then
         (if n > 0 then
            seq (py_index v (SInt (- 1))) (\<lambda>last_val.
            seq (py_mod2 sm last_val) (\<lambda>r.
            seq (if is_zero r then py_add last_val (SInt 1) else Inr last_val) (\<lambda>last_val'.
              append_to key params (Inr last_val'))))
          else append_to key params (Inr (SInt 100)))
       else if key = ''geog_data_res'' then
         (if n > 0 then append_to key params (py_index v (SInt (- 1)))
          else append_to key params (Inr (SStr ''default'')))
       else Inr params) = Inr p1"
    by (rule append_entry_unfold)
  consider (pid) "key = ''parent_id''" "n > 0"
    | (pgr) "key = ''parent_grid_ratio''" "n > 0"
    | (empty) "key = ''parent_id'' \<or> key = ''parent_grid_ratio''" "n = 0"
    | (start) "key = ''i_parent_start'' \<or> key = ''j_parent_start''"
    | (size) "key = ''e_we'' \<or> key = ''e_sn''"
    | (res) "key = ''geog_data_res''"
    | (other) "key \<notin> set list_params"
    by (auto simp add: list_params_def)
  then show ?thesis
  proof cases
    case pid
    with body show ?thesis by (simp add: append_to_appended)
  next
    case pgr
    with body show ?thesis by (auto simp add: append_to_appended split: if_splits)
  next
    case empty
    with body v n show ?thesis by auto
  next
    case start
    then have neq: "\<not> (key = ''parent_id'' \<and> n > 0)" "\<not> (key = ''parent_grid_ratio'' \<and> n > 0)"
      by auto
    from body show ?thesis
      by (simp only: neq start if_False if_True) (simp add: start_branch_appended)
  next
    case size
    then have neq: "\<not> (key = ''parent_id'' \<and> n > 0)" "\<not> (key = ''parent_grid_ratio'' \<and> n > 0)"
      "\<not> (key = ''i_parent_start'' \<or> key = ''j_parent_start'')"
      by auto
    from body show ?thesis
      by (simp only: neq size if_False if_True) (simp add: size_branch_appended)
  next
    case res
    with body show ?thesis by (auto simp add: append_to_appended split: if_splits)
  next
    case other
    with body show ?thesis by (auto simp add: list_params_def)
  qed
qed

lemma ext_of_refl [simp]: "ext_of a a" by (simp add: ext_of_def)

lemma ext_of_trans: "ext_of a b \<Longrightarrow> ext_of b c \<Longrightarrow> ext_of a c"
  by (auto simp add: ext_of_def)

lemma ext_of_None [simp]: "ext_of a None \<longleftrightarrow> a = None"
  by (auto simp add: ext_of_def)

lemma grown_at_refl [simp]: "grown_at key p p"
  by (simp add: grown_at_def)

lemma grown_at_trans: "grown_at key p q \<Longrightarrow> grown_at key q r \<Longrightarrow> grown_at key p r"
  unfolding grown_at_def by (auto intro: ext_of_trans)

lemma update_present_keys: "map_of al k = Some v \<Longrightarrow> map fst (AList.update k v' al) = map fst al"
  by (induction al) (auto split: if_splits)

lemma appended_grown_at: "appended key params p1 \<Longrightarrow> grown_at key params p1"
  by (auto simp add: appended_def grown_at_def update_present_keys update_conv' ext_of_def)

lemma grow_step:
  "grow sm key m params =
     (case seq (lookup params key) py_len of
        Inl e \<Rightarrow> Some (Inl e)
      | Inr n \<Rightarrow>
          if int n < m then
            (case append_entry sm key params of
               Inl e \<Rightarrow> Some (Inl e)
             | Inr params' \<Rightarrow> grow sm key m params')
          else Some (Inr params))"
  by (rule grow.simps)

lemma grow_grown_at_aux:
  "grow sm key m params = Some y \<Longrightarrow> \<forall>q. y = Inr q \<longrightarrow> grown_at key params q"
proof (rule grow.raw_induct[where P = "\<lambda>sm key m params y. \<forall>q. y = Inr q \<longrightarrow> grown_at key params q"])
  fix g sm' key' m' ps y'
  assume IH: "\<And>s k m p y. g s k m p = Some y \<Longrightarrow> \<forall>q. y = Inr q \<longrightarrow> grown_at k p q"
    and step: "(case seq (lookup ps key') py_len of
        Inl e \<Rightarrow> Some (Inl e)
      | Inr n \<Rightarrow>
          if int n < m' then
            (case append_entry sm' key' ps of
               Inl e \<Rightarrow> Some (Inl e)
             | Inr params' \<Rightarrow> g sm' key' m' params')
          else Some (Inr ps)) = Some y'"
  show "\<forall>q. y' = Inr q \<longrightarrow> grown_at key' ps q"
  proof (intro allI impI)
    fix q assume y: "y' = Inr q"
    have "q = ps \<or> (\<exists>p1. append_entry sm' key' ps = Inr p1 \<and> g sm' key' m' p1 = Some (Inr q))"
    proof (cases "seq (lookup ps key') py_len")
      case (Inl e)
      with step y show ?thesis by simp
    next
      case (Inr n)
      show ?thesis
      proof (cases "int n < m'")
        case False
        with step y Inr show ?thesis by simp
      next
        case True
        with step y Inr show ?thesis
          by (cases "append_entry sm' key' ps") simp_all
      qed
    qed
    then consider (stop) "q = ps"
      | (more) p1 where "append_entry sm' key' ps = Inr p1" "g sm' key' m' p1 = Some (Inr q)"
      by blast
    then show "grown_at key' ps q"
    proof cases
      case stop
      then show ?thesis by simp
    next
      case more
      from more(1) have "grown_at key' ps p1"
        using append_entry_Inr[of sm' key' ps p1] by (auto simp add: appended_grown_at)
      moreover from IH[OF more(2)] have "grown_at key' p1 q" by simp
      ultimately show ?thesis by (rule grown_at_trans)
    qed
  qed
qed

lemma grow_grown_at: "grow sm key m params = Some (Inr p') \<Longrightarrow> grown_at key params p'"
  using grow_grown_at_aux by blast

lemma trim_eq_Inr:
  "trim key m p1 = Inr p2 \<longleftrightarrow>
     (\<exists>v v'. map_of p1 key = Some v \<and> py_slice_to v m = Inr v' \<and>
        p2 = AList.update key v' p1)"
  by (auto simp add: trim_def seq_eq_Inr lookup_eq_Inr)

lemma trim_frame:
  assumes "trim key m p1 = Inr p2"
  shows "map fst p2 = map fst p1 \<and> (\<forall>k. k \<noteq> key \<longrightarrow> map_of p2 k = map_of p1 k)"
  using assms by (auto simp add: trim_eq_Inr update_present_keys update_conv')

lemma grow_frame:
  assumes "grow sm key m params = Some (Inr p1)"
  shows "map fst p1 = map fst params \<and> (\<forall>k. k \<noteq> key \<longrightarrow> map_of p1 k = map_of params k)"
  using grow_grown_at[OF assms] by (simp add: grown_at_def)

lemma adjust_keys_frame:
  "adjust_keys sm ks m params = Some (Inr p') \<Longrightarrow>
     map fst p' = map fst params \<and> (\<forall>k. k \<notin> set ks \<longrightarrow> map_of p' k = map_of params k)"
proof (induction ks arbitrary: params)
  case Nil
  then show ?case by simp
next
  case (Cons key ks)
  show ?case
  proof (cases "map_of params key = None")
    case True
    with Cons.prems have "adjust_keys sm ks m params = Some (Inr p')" by simp
    from Cons.IH[OF this] show ?thesis by simp
  next
    case False
    with Cons.prems obtain p1 p2 where g: "grow sm key m params = Some (Inr p1)"
      and t: "trim key m p1 = Inr p2" and r: "adjust_keys sm ks m p2 = Some (Inr p')"
      by (auto split: option.splits sum.splits)
    from grow_frame[OF g] trim_frame[OF t] Cons.IH[OF r] show ?thesis by simp
  qed
qed


lemma py_index_last: "xs \<noteq> [] \<Longrightarrow> py_index (PList xs) (SInt (- 1)) = Inr (last xs)"
  by (cases xs rule: rev_cases) (simp_all add: norm_index_def nth_append)

lemma append_entry_size:
  assumes key: "key = ''e_we'' \<or> key = ''e_sn''"
    and v: "map_of params key = Some (PList xs)"
    and a: "xs \<noteq> [] \<longrightarrow> last xs = SInt a"
  shows "append_entry sm key params =
     Inr (AList.update key
           (PList (xs @ [if xs = [] then SInt 100 else SInt (if even a then a + 1 else a)]))
           params)"
proof -
  from key have neq: "\<not> (key = ''parent_id'' \<and> length xs > 0)"
    "\<not> (key = ''parent_grid_ratio'' \<and> length xs > 0)"
    "\<not> (key = ''i_parent_start'' \<or> key = ''j_parent_start'')"
    by auto
  have "append_entry sm key params =
     (if length xs > 0 then
            seq (py_index (PList xs) (SInt (- 1))) (\<lambda>last_val.
            seq (py_mod2 sm last_val) (\<lambda>r.
            seq (if is_zero r then py_add last_val (SInt 1) else Inr last_val) (\<lambda>last_val'.
              append_to key params (Inr last_val'))))
          else append_to key params (Inr (SInt 100)))"
    unfolding append_entry_def lookup_def v
    by (simp only: option.case seq_Inr py_len.simps neq key if_False if_True)
  also have "\<dots> = Inr (AList.update key
           (PList (xs @ [if xs = [] then SInt 100 else SInt (if even a then a + 1 else a)]))
           params)"
  proof (cases "xs = []")
    case True
    then show ?thesis by (simp add: append_to_def lookup_def v)
  next
    case False
    with a have "py_index (PList xs) (SInt (- 1)) = Inr (SInt a)"
      by (simp add: py_index_last del: py_index.simps)
    with False show ?thesis
      by (simp add: append_to_def lookup_def v even_iff_mod_2_eq_zero del: py_index.simps)
  qed
  finally show ?thesis .
qed

lemma slice_to_nat [simp]: "slice_to (int n) xs = take n xs"
  by (simp add: slice_to_def)

lemma slice_to_append:
  "int (length xs) \<le> m \<Longrightarrow> slice_to m (xs @ ys) = xs @ take (nat m - length xs) ys"
  by (simp add: slice_to_def)

lemma has_list_lengthD:
  assumes "has_list_length params n" and "key \<in> set list_params" and "map_of params key = Some v"
  shows "\<exists>xs. v = PList xs \<and> length xs = n"
proof -
  from assms(1,2) have "case map_of params key of
                        None \<Rightarrow> True
                      | Some (PList xs) \<Rightarrow> length xs = n
                      | Some (Sc s) \<Rightarrow> False"
    by (simp add: has_list_length_def list_all_iff)
  with assms(3) show ?thesis by (cases v) simp_all
qed

lemma ext_of_Some: "ext_of a (Some v) \<Longrightarrow> \<exists>ov. a = Some ov"
  by (auto simp add: ext_of_def)

lemma ext_of_list:
  assumes "ext_of (Some (PList xs)) b"
  shows "\<exists>ys. b = Some (PList (xs @ ys))"
  using assms by (auto simp add: ext_of_def)

lemma grow_pass:
  assumes inv: "\<forall>k. ext_of (map_of orig k) (map_of p k)"
    and len: "has_list_length orig n" "int n \<le> m"
    and ks: "set ks \<subseteq> set list_params"
    and run: "adjust_keys sm ks m p = Some (Inr p')"
  shows "\<forall>k. ext_of (map_of orig k) (map_of p' k)"
  using inv ks run
proof (induction ks arbitrary: p)
  case Nil
  then show ?case by simp
next
  case (Cons key ks)
  show ?case
  proof (cases "map_of p key = None")
    case True
    with Cons.prems have "adjust_keys sm ks m p = Some (Inr p')" by simp
    with Cons.IH Cons.prems show ?thesis by simp
  next
    case False
    with Cons.prems(3) obtain p1 p2 where g: "grow sm key m p = Some (Inr p1)"
      and t: "trim key m p1 = Inr p2" and r: "adjust_keys sm ks m p2 = Some (Inr p')"
      by (auto split: option.splits sum.splits)
    from grow_grown_at[OF g] have g1: "\<forall>k. k \<noteq> key \<longrightarrow> map_of p1 k = map_of p k"
      and g2: "ext_of (map_of p key) (map_of p1 key)"
      by (simp_all add: grown_at_def)
    from t obtain v v' where v: "map_of p1 key = Some v" "py_slice_to v m = Inr v'"
      and p2: "p2 = AList.update key v' p1"
      by (auto simp add: trim_eq_Inr)
    have e1: "ext_of (map_of orig key) (map_of p1 key)"
      using Cons.prems(1) g2 by (blast intro: ext_of_trans)
    from e1 v obtain ov where ov: "map_of orig key = Some ov"
      by (auto dest: ext_of_Some)
    from Cons.prems(2) have "key \<in> set list_params" by simp
    from has_list_lengthD[OF len(1) this ov] obtain xs where xs: "ov = PList xs" "length xs = n"
      by blast
    from e1 ov xs v obtain ys where ys: "v = PList (xs @ ys)"
      by (auto dest: ext_of_list)
    from v(2) ys xs len(2) have "v' = PList (xs @ take (nat m - length xs) ys)"
      by (simp add: slice_to_append)
    then have e2: "ext_of (map_of orig key) (map_of p2 key)"
      by (auto simp add: p2 update_conv' ov xs ext_of_def)
    have "\<forall>k. ext_of (map_of orig k) (map_of p2 k)"
    proof
      fix k show "ext_of (map_of orig k) (map_of p2 k)"
      proof (cases "k = key")
        case True
        with e2 show ?thesis by simp
      next
        case False
        then have "map_of p2 k = map_of p k" by (simp add: p2 update_conv' g1)
        with Cons.prems(1) show ?thesis by simp
      qed
    qed
    from Cons.IH[OF this _ r] Cons.prems(2) show ?thesis by simp
  qed
qed

lemma grow_noop:
  assumes "map_of p key = Some (PList zs)" and "m \<le> int (length zs)"
  shows "grow sm key m p = Some (Inr p)"
  using assms by (subst grow.simps) (simp add: lookup_def)

lemma shrink_pass:
  assumes inv: "\<forall>k. ext_of (map_of orig k) (map_of p k)"
    and len: "has_list_length orig n"
    and ks: "set ks \<subseteq> set list_params"
  shows "\<exists>p'. adjust_keys sm ks (int n) p = Some (Inr p') \<and> map fst p' = map fst p \<and>
           (\<forall>k. map_of p' k = (if k \<in> set ks then map_of orig k else map_of p k))"
  using inv ks
proof (induction ks arbitrary: p)
  case Nil
  then show ?case by simp
next
  case (Cons key ks)
  from Cons.prems(2) have key: "key \<in> set list_params" and ks: "set ks \<subseteq> set list_params"
    by simp_all
  show ?case
  proof (cases "map_of p key = None")
    case True
    with Cons.prems(1) have o: "map_of orig key = None"
      by (metis ext_of_None)
    from Cons.IH[OF Cons.prems(1) ks] obtain p' where
      p': "adjust_keys sm ks (int n) p = Some (Inr p')" "map fst p' = map fst p"
      "\<forall>k. map_of p' k = (if k \<in> set ks then map_of orig k else map_of p k)"
      by blast
    from p' True o show ?thesis by auto
  next
    case False
    then obtain v where v: "map_of p key = Some v" by auto
    with Cons.prems(1) obtain ov where ov: "map_of orig key = Some ov"
      by (metis ext_of_Some)
    from has_list_lengthD[OF len key ov] obtain xs where xs: "ov = PList xs" "length xs = n"
      by blast
    from Cons.prems(1) ov xs v obtain ys where ys: "v = PList (xs @ ys)"
      by (metis ext_of_list option.inject)
    have g: "grow sm key (int n) p = Some (Inr p)"
      using v ys xs by (intro grow_noop[where zs = "xs @ ys"]) simp_all
    let ?p2 = "AList.update key (PList xs) p"
    have t: "trim key (int n) p = Inr ?p2"
      using v ys xs by (simp add: trim_def lookup_def)
    have inv2: "\<forall>k. ext_of (map_of orig k) (map_of ?p2 k)"
      using Cons.prems(1) by (simp add: update_conv' ov xs)
    from Cons.IH[OF inv2 ks] obtain p' where
      p': "adjust_keys sm ks (int n) ?p2 = Some (Inr p')" "map fst p' = map fst ?p2"
      "\<forall>k. map_of p' k = (if k \<in> set ks then map_of orig k else map_of ?p2 k)"
      by blast
    have "adjust_keys sm (key # ks) (int n) p = Some (Inr p')"
      using v g t p'(1) by simp
    moreover have "map fst p' = map fst p"
      using p'(2) v by (simp add: update_present_keys)
    moreover have "\<forall>k. map_of p' k = (if k \<in> set (key # ks) then map_of orig k else map_of p k)"
      using p'(3) by (auto simp add: update_conv' ov xs)
    ultimately show ?thesis by blast
  qed
qed

lemma dict_eqI:
  assumes "map fst xs = map fst ys" and "distinct (map fst xs)" and "map_of xs = map_of ys"
  shows "xs = ys"
  using assms
proof (induction xs arbitrary: ys)
  case Nil
  then show ?case by simp
next
  case (Cons x xs)
  from Cons.prems(1) obtain y ys' where ys: "ys = y # ys'" "fst x = fst y" "map fst xs = map fst ys'"
    by (cases ys) auto
  from fun_cong[OF Cons.prems(3), of "fst x"] ys have xy: "x = y"
    by (cases x; cases y) simp
  have "map_of xs = map_of ys'"
  proof
    fix k
    show "map_of xs k = map_of ys' k"
    proof (cases "k = fst x")
      case True
      with Cons.prems(2) have "map_of xs k = None"
        by (simp add: map_of_eq_None_iff)
      moreover from True Cons.prems(2) ys(3) have "map_of ys' k = None"
        by (simp add: map_of_eq_None_iff)
      ultimately show ?thesis by simp
    next
      case False
      with Cons.prems(3) ys xy show ?thesis
        by (metis fun_upd_apply map_of.simps(2) prod.collapse)
    qed
  qed
  with Cons.IH[OF ys(3) _ this] Cons.prems(2) xy ys show ?case by simp
qed


lemma shrink_restores:
  assumes d: "is_dict params" and len: "has_list_length params n"
    and inv: "\<forall>k. ext_of (map_of params k) (map_of p1 k)"
    and keys: "map fst p1 = map fst params"
    and out: "\<forall>k. k \<notin> set list_params \<longrightarrow> map_of p1 k = map_of params k"
  shows "adjust_params_for_max_dom sm p1 (int n) = Some (Inr params)"
proof -
  from shrink_pass[OF inv len subset_refl, of sm] obtain p' where
    p': "adjust_keys sm list_params (int n) p1 = Some (Inr p')" "map fst p' = map fst p1"
      "\<forall>k. map_of p' k = (if k \<in> set list_params then map_of params k else map_of p1 k)"
    by blast
  from p'(3) out have "map_of p' = map_of params" by auto
  moreover from p'(2) keys have "map fst p' = map fst params" by simp
  moreover from d this have "distinct (map fst p')" by (simp add: is_dict_def)
  ultimately have "p' = params" by (intro dict_eqI) simp_all
  with p'(1) show ?thesis by (simp add: adjust_params_for_max_dom_def)
qed

lemma shrink_after_grow:
  assumes d: "is_dict params" and len: "has_list_length params n" and nm: "int n \<le> m"
    and run: "adjust_params_for_max_dom sm params m = Some (Inr p1)"
  shows "adjust_params_for_max_dom sm' p1 (int n) = Some (Inr params)"
proof -
  from run have r: "adjust_keys sm list_params m params = Some (Inr p1)"
    by (simp add: adjust_params_for_max_dom_def)
  have "\<forall>k. ext_of (map_of params k) (map_of params k)" by simp
  from grow_pass[OF this len nm subset_refl r]
  have inv: "\<forall>k. ext_of (map_of params k) (map_of p1 k)" .
  from adjust_keys_frame[OF r] show ?thesis
    by (intro shrink_restores[OF d len inv]) simp_all
qed

lemma sync_same_length:
  assumes d: "is_dict params" and len: "has_list_length params n"
  shows "adjust_params_for_max_dom sm params (int n) = Some (Inr params)"
  by (rule shrink_restores[OF d len]) simp_all

lemma dim_covers_not:
  "map_of p dkey = Some (PList ys) \<Longrightarrow> length ys \<le> n \<Longrightarrow> dim_covers dkey p n = Inr False"
  by (simp add: dim_covers_def lookup_def)

lemma size_entry_returns:
  assumes "is_number l"
  shows "\<exists>x. seq (py_mod2 sm l) (\<lambda>r.
            seq (if is_zero r then py_add l (SInt 1) else Inr l) (\<lambda>last_val'.
              append_to key p (Inr last_val'))) = append_to key p (Inr x) \<and> is_number x"
  using assms by (cases l) auto

lemma append_entry_returns:
  assumes key: "key \<in> set list_params"
    and v: "map_of p key = Some (PList xs)"
    and ne: "key = ''parent_id'' \<or> key = ''parent_grid_ratio'' \<longrightarrow> xs \<noteq> []"
    and ci: "key = ''i_parent_start'' \<longrightarrow>
               (\<exists>ys. map_of p ''e_we'' = Some (PList ys) \<and> length ys \<le> length xs)"
    and cj: "key = ''j_parent_start'' \<longrightarrow>
               (\<exists>ys. map_of p ''e_sn'' = Some (PList ys) \<and> length ys \<le> length xs)"
    and num: "key = ''e_we'' \<or> key = ''e_sn'' \<longrightarrow> xs \<noteq> [] \<longrightarrow> is_number (last xs)"
  shows "\<exists>x. append_entry sm key p = Inr (AList.update key (PList (xs @ [x])) p) \<and>
             (key = ''e_we'' \<or> key = ''e_sn'' \<longrightarrow> is_number x)"
proof -
  have app: "\<And>x. append_to key p (Inr x) = Inr (AList.update key (PList (xs @ [x])) p)"
    by (simp add: append_to_def lookup_def v)
  consider (pid) "key = ''parent_id''" | (pgr) "key = ''parent_grid_ratio''"
    | (istart) "key = ''i_parent_start''" | (jstart) "key = ''j_parent_start''"
    | (size) "key = ''e_we'' \<or> key = ''e_sn''" | (res) "key = ''geog_data_res''"
    | (other) "key \<notin> set list_params"
    by (auto simp add: list_params_def)
  then show ?thesis
  proof cases
    case pid
    with ne have n: "xs \<noteq> []" by simp
    have "append_entry sm key p = append_to key p (Inr (SInt (int (length xs))))"
      using pid n v by (simp add: append_entry_def lookup_def)
    then show ?thesis using pid app by auto
  next
    case pgr
    with ne have n: "xs \<noteq> []" by simp
    have "append_entry sm key p =
        append_to key p (Inr (if length xs = 1 then SInt 3 else last xs))"
      using pgr n v by (simp add: append_entry_def lookup_def py_index_last del: py_index.simps)
    then show ?thesis using pgr app by auto
  next
    case istart
    from ci istart obtain ys where "map_of p ''e_we'' = Some (PList ys)" "length ys \<le> length xs"
      by blast
    then have "dim_covers ''e_we'' p (length xs) = Inr False" by (rule dim_covers_not)
    then have "append_entry sm key p = append_to key p (Inr (SInt 1))"
      using istart v by (simp add: append_entry_def lookup_def)
    then show ?thesis using istart app by auto
  next
    case jstart
    from cj jstart obtain ys where "map_of p ''e_sn'' = Some (PList ys)" "length ys \<le> length xs"
      by blast
    then have "dim_covers ''e_sn'' p (length xs) = Inr False" by (rule dim_covers_not)
    then have "append_entry sm key p = append_to key p (Inr (SInt 1))"
      using jstart v by (simp add: append_entry_def lookup_def)
    then show ?thesis using jstart app by auto
  next
    case size
    then have neq: "\<not> (key = ''parent_id'' \<and> length xs > 0)"
      "\<not> (key = ''parent_grid_ratio'' \<and> length xs > 0)"
      "\<not> (key = ''i_parent_start'' \<or> key = ''j_parent_start'')"
      by auto
    have body: "append_entry sm key p =
     (if length xs > 0 then
            seq (py_index (PList xs) (SInt (- 1))) (\<lambda>last_val.
            seq (py_mod2 sm last_val) (\<lambda>r.
            seq (if is_zero r then py_add last_val (SInt 1) else Inr last_val) (\<lambda>last_val'.
              append_to key p (Inr last_val'))))
          else append_to key p (Inr (SInt 100)))"
      unfolding append_entry_def lookup_def v
      by (simp only: option.case seq_Inr py_len.simps neq size if_False if_True)
    show ?thesis
    proof (cases "xs = []")
      case True
      with body have "append_entry sm key p = append_to key p (Inr (SInt 100))" by simp
      then have "append_entry sm key p = Inr (AList.update key (PList (xs @ [SInt 100])) p) \<and>
          is_number (SInt 100)"
        by (simp add: app)
      then show ?thesis by blast
    next
      case False
      from num size False have "is_number (last xs)" by blast
      from size_entry_returns[OF this, of sm key p] obtain x where
        x: "seq (py_mod2 sm (last xs)) (\<lambda>r.
            seq (if is_zero r then py_add (last xs) (SInt 1) else Inr (last xs)) (\<lambda>last_val'.
              append_to key p (Inr last_val'))) = append_to key p (Inr x)" "is_number x"
        by blast
      from False body have "append_entry sm key p = append_to key p (Inr x)"
        by (simp add: py_index_last x(1) del: py_index.simps)
      with x(2) have "append_entry sm key p = Inr (AList.update key (PList (xs @ [x])) p) \<and>
          is_number x"
        by (simp add: app)
      then show ?thesis by blast
    qed
  next
    case res
    have "append_entry sm key p =
        append_to key p (Inr (if xs = [] then SStr ''default'' else last xs))"
      using res v by (simp add: append_entry_def lookup_def py_index_last del: py_index.simps)
    then show ?thesis using res app by auto
  next
    case other
    with key show ?thesis by simp
  qed
qed

lemma grow_returns_aux:
  assumes key: "key \<in> set list_params"
  shows "map_of p key = Some (PList xs) \<Longrightarrow>
     (key = ''parent_id'' \<or> key = ''parent_grid_ratio'' \<longrightarrow> xs \<noteq> []) \<Longrightarrow>
     (key = ''i_parent_start'' \<longrightarrow>
        (\<exists>ys. map_of p ''e_we'' = Some (PList ys) \<and> length ys \<le> length xs)) \<Longrightarrow>
     (key = ''j_parent_start'' \<longrightarrow>
        (\<exists>ys. map_of p ''e_sn'' = Some (PList ys) \<and> length ys \<le> length xs)) \<Longrightarrow>
     (key = ''e_we'' \<or> key = ''e_sn'' \<longrightarrow> xs \<noteq> [] \<longrightarrow> is_number (last xs)) \<Longrightarrow>
     nat (m - int (length xs)) = d \<Longrightarrow>
     \<exists>p1 zs. grow sm key m p = Some (Inr p1) \<and> map_of p1 key = Some (PList zs) \<and>
        m \<le> int (length zs)"
proof (induction d arbitrary: p xs)
  case 0
  then have "m \<le> int (length xs)" by simp
  with 0(1) have "grow sm key m p = Some (Inr p)" by (intro grow_noop[where zs = xs])
  with 0(1) \<open>m \<le> int (length xs)\<close> show ?case by blast
next
  case (Suc d)
  then have lt: "int (length xs) < m" by simp
  from append_entry_returns[OF key Suc.prems(1-5), of sm]
  obtain x where x: "append_entry sm key p = Inr (AList.update key (PList (xs @ [x])) p)"
    and nx: "key = ''e_we'' \<or> key = ''e_sn'' \<longrightarrow> is_number x"
    by blast
  let ?p = "AList.update key (PList (xs @ [x])) p"
  have v: "map_of ?p key = Some (PList (xs @ [x]))" by (simp add: update_conv')
  have i: "key = ''i_parent_start'' \<longrightarrow>
        (\<exists>ys. map_of ?p ''e_we'' = Some (PList ys) \<and> length ys \<le> length (xs @ [x]))"
    using Suc.prems(3) by (auto simp add: update_conv')
  have j: "key = ''j_parent_start'' \<longrightarrow>
        (\<exists>ys. map_of ?p ''e_sn'' = Some (PList ys) \<and> length ys \<le> length (xs @ [x]))"
    using Suc.prems(4) by (auto simp add: update_conv')
  have n: "key = ''e_we'' \<or> key = ''e_sn'' \<longrightarrow> xs @ [x] \<noteq> [] \<longrightarrow> is_number (last (xs @ [x]))"
    using nx by simp
  from Suc.prems(6) have "nat (m - int (length (xs @ [x]))) = d" by simp
  from Suc.IH[OF v _ i j n this] obtain p1 zs where
    r: "grow sm key m ?p = Some (Inr p1)" "map_of p1 key = Some (PList zs)" "m \<le> int (length zs)"
    by auto
  have "grow sm key m p = grow sm key m ?p"
    using lt x Suc.prems(1) by (subst grow.simps) (simp add: lookup_def)
  with r show ?case by auto
qed

lemma has_list_lengthI:
  assumes "\<And>key. key \<in> set list_params \<Longrightarrow>
     map_of p key = None \<or> (\<exists>xs. map_of p key = Some (PList xs) \<and> length xs = n)"
  shows "has_list_length p n"
  unfolding has_list_length_def list_all_iff
proof
  fix key assume "key \<in> set list_params"
  from assms[OF this] show "case map_of p key of None \<Rightarrow> True
      | Some (PList xs) \<Rightarrow> length xs = n | Some (Sc s) \<Rightarrow> False"
    by auto
qed

lemma adjust_keys_returns:
  assumes len: "has_list_length orig n" and nm: "int n \<le> m"
    and gr: "growable orig"
    and ne: "nonempty_list orig ''parent_id''" "nonempty_list orig ''parent_grid_ratio''"
  shows "set ks \<subseteq> set list_params \<Longrightarrow>
     sorted_wrt (\<lambda>a b. a \<noteq> b \<and> \<not> (a = ''e_we'' \<and> b = ''i_parent_start'') \<and>
                      \<not> (a = ''e_sn'' \<and> b = ''j_parent_start'')) ks \<Longrightarrow>
     (\<forall>k. k \<in> set ks \<or> (k = ''e_we'' \<and> ''i_parent_start'' \<in> set ks) \<or>
          (k = ''e_sn'' \<and> ''j_parent_start'' \<in> set ks) \<longrightarrow> map_of p k = map_of orig k) \<Longrightarrow>
     \<exists>p'. adjust_keys sm ks m p = Some (Inr p') \<and>
       (\<forall>k \<in> set ks. map_of p k \<noteq> None \<longrightarrow>
          (\<exists>zs. map_of p' k = Some (PList zs) \<and> length zs = nat m))"
proof (induction ks arbitrary: p)
  case Nil
  then show ?case by simp
next
  case (Cons key ks)
  from Cons.prems(1) have key: "key \<in> set list_params" and ks: "set ks \<subseteq> set list_params"
    by simp_all
  from Cons.prems(2) have nk: "key \<notin> set ks"
    and o1: "key = ''e_we'' \<Longrightarrow> ''i_parent_start'' \<notin> set ks"
    and o2: "key = ''e_sn'' \<Longrightarrow> ''j_parent_start'' \<notin> set ks"
    and sk: "sorted_wrt (\<lambda>a b. a \<noteq> b \<and> \<not> (a = ''e_we'' \<and> b = ''i_parent_start'') \<and>
                      \<not> (a = ''e_sn'' \<and> b = ''j_parent_start'')) ks"
    by auto
  have inv': "\<And>q. (\<forall>k. k \<noteq> key \<longrightarrow> map_of q k = map_of p k) \<Longrightarrow>
     (\<forall>k. k \<in> set ks \<or> (k = ''e_we'' \<and> ''i_parent_start'' \<in> set ks) \<or>
          (k = ''e_sn'' \<and> ''j_parent_start'' \<in> set ks) \<longrightarrow> map_of q k = map_of orig k)"
  proof (intro allI impI)
    fix q k
    assume q: "\<forall>k. k \<noteq> key \<longrightarrow> map_of q k = map_of p k"
      and k: "k \<in> set ks \<or> (k = ''e_we'' \<and> ''i_parent_start'' \<in> set ks) \<or>
          (k = ''e_sn'' \<and> ''j_parent_start'' \<in> set ks)"
    from k nk o1 o2 have "k \<noteq> key" by auto
    with q have "map_of q k = map_of p k" by simp
    also from k Cons.prems(3) have "\<dots> = map_of orig k" by auto
    finally show "map_of q k = map_of orig k" .
  qed
  show ?case
  proof (cases "map_of p key = None")
    case True
    from Cons.IH[OF ks sk inv'[of p]] obtain p' where
      p': "adjust_keys sm ks m p = Some (Inr p')"
        "\<forall>k \<in> set ks. map_of p k \<noteq> None \<longrightarrow>
          (\<exists>zs. map_of p' k = Some (PList zs) \<and> length zs = nat m)"
      by auto
    with True show ?thesis by auto
  next
    case False
    from Cons.prems(3) have po: "map_of p key = map_of orig key" by simp
    with False obtain v where v: "map_of orig key = Some v" by auto
    from has_list_lengthD[OF len key v] obtain xs where xs: "v = PList xs" "length xs = n"
      by blast
    with v po have pv: "map_of p key = Some (PList xs)" by simp
    have c1: "key = ''parent_id'' \<or> key = ''parent_grid_ratio'' \<longrightarrow> xs \<noteq> []"
      using ne v xs by (auto simp add: nonempty_list_def)
    have c2: "key = ''i_parent_start'' \<longrightarrow>
        (\<exists>ys. map_of p ''e_we'' = Some (PList ys) \<and> length ys \<le> length xs)"
    proof
      assume k: "key = ''i_parent_start''"
      with gr v obtain w where w: "map_of orig ''e_we'' = Some w"
        by (auto simp add: growable_def)
      have "''e_we'' \<in> set list_params" by (simp add: list_params_def)
      from has_list_lengthD[OF len this w] obtain ys where "w = PList ys" "length ys = n"
        by blast
      moreover from k Cons.prems(3) have "map_of p ''e_we'' = map_of orig ''e_we''" by simp
      ultimately show "\<exists>ys. map_of p ''e_we'' = Some (PList ys) \<and> length ys \<le> length xs"
        using w xs by simp
    qed
    have c3: "key = ''j_parent_start'' \<longrightarrow>
        (\<exists>ys. map_of p ''e_sn'' = Some (PList ys) \<and> length ys \<le> length xs)"
    proof
      assume k: "key = ''j_parent_start''"
      with gr v obtain w where w: "map_of orig ''e_sn'' = Some w"
        by (auto simp add: growable_def)
      have "''e_sn'' \<in> set list_params" by (simp add: list_params_def)
      from has_list_lengthD[OF len this w] obtain ys where "w = PList ys" "length ys = n"
        by blast
      moreover from k Cons.prems(3) have "map_of p ''e_sn'' = map_of orig ''e_sn''" by simp
      ultimately show "\<exists>ys. map_of p ''e_sn'' = Some (PList ys) \<and> length ys \<le> length xs"
        using w xs by simp
    qed
    have c4: "key = ''e_we'' \<or> key = ''e_sn'' \<longrightarrow> xs \<noteq> [] \<longrightarrow> is_number (last xs)"
      using gr v xs by (auto simp add: growable_def ends_with_number_def)
    from grow_returns_aux[OF key pv c1 c2 c3 c4 refl, where m = m and sm = sm] obtain p1 zs where
      g: "grow sm key m p = Some (Inr p1)" and z: "map_of p1 key = Some (PList zs)"
      and mz: "m \<le> int (length zs)"
      by blast
    let ?p2 = "AList.update key (PList (slice_to m zs)) p1"
    have t: "trim key m p1 = Inr ?p2" by (simp add: trim_def lookup_def z)
    from nm mz have lz: "length (slice_to m zs) = nat m" by (simp add: slice_to_def)
    from grow_frame[OF g] have "\<forall>k. k \<noteq> key \<longrightarrow> map_of ?p2 k = map_of p k"
      by (simp add: update_conv')
    note fr = this
    from Cons.IH[OF ks sk inv'[OF fr]] obtain p' where
      p': "adjust_keys sm ks m ?p2 = Some (Inr p')"
        "\<forall>k \<in> set ks. map_of ?p2 k \<noteq> None \<longrightarrow>
          (\<exists>zs. map_of p' k = Some (PList zs) \<and> length zs = nat m)"
      by auto
    have run: "adjust_keys sm (key # ks) m p = Some (Inr p')"
      using pv g t p'(1) by simp
    from adjust_keys_frame[OF p'(1)] nk have "map_of p' key = map_of ?p2 key" by simp
    then have hk: "map_of p' key = Some (PList (slice_to m zs))" by (simp add: update_conv')
    have "\<forall>k \<in> set (key # ks). map_of p k \<noteq> None \<longrightarrow>
          (\<exists>zs. map_of p' k = Some (PList zs) \<and> length zs = nat m)"
    proof (intro ballI impI)
      fix k assume k: "k \<in> set (key # ks)" and pk: "map_of p k \<noteq> None"
      show "\<exists>zs. map_of p' k = Some (PList zs) \<and> length zs = nat m"
      proof (cases "k = key")
        case True
        with hk lz show ?thesis by simp
      next
        case False
        with k have "k \<in> set ks" by simp
        moreover from False fr pk have "map_of ?p2 k \<noteq> None" by simp
        ultimately show ?thesis using p'(2) by blast
      qed
    qed
    with run show ?thesis by blast
  qed
qed

lemma adjust_returns:
  assumes len: "has_list_length params n" and nm: "int n \<le> m"
    and gr: "growable params"
    and ne: "nonempty_list params ''parent_id''" "nonempty_list params ''parent_grid_ratio''"
  shows "\<exists>p1. adjust_params_for_max_dom sm params m = Some (Inr p1) \<and>
           has_list_length p1 (nat m)"
proof -
  have "\<exists>p'. adjust_keys sm list_params m params = Some (Inr p') \<and>
       (\<forall>k \<in> set list_params. map_of params k \<noteq> None \<longrightarrow>
          (\<exists>zs. map_of p' k = Some (PList zs) \<and> length zs = nat m))"
    by (rule adjust_keys_returns[OF len nm gr ne]) (simp_all add: list_params_def)
  then obtain p1 where r: "adjust_keys sm list_params m params = Some (Inr p1)"
    and l: "\<forall>k \<in> set list_params. map_of params k \<noteq> None \<longrightarrow>
          (\<exists>zs. map_of p1 k = Some (PList zs) \<and> length zs = nat m)"
    by blast
  from adjust_keys_frame[OF r] have "map fst p1 = map fst params" by simp
  then have "fst ` set p1 = fst ` set params" by (metis image_set)
  then have none: "\<And>k. map_of params k = None \<Longrightarrow> map_of p1 k = None"
    by (simp add: map_of_eq_None_iff)
  have "has_list_length p1 (nat m)"
  proof (rule has_list_lengthI)
    fix key assume "key \<in> set list_params"
    with l none[of key]
    show "map_of p1 key = None \<or> (\<exists>xs. map_of p1 key = Some (PList xs) \<and> length xs = nat m)"
      by (cases "map_of params key") auto
  qed
  with r show ?thesis by (simp add: adjust_params_for_max_dom_def)
qed

lemma default_geogrid_growable: "growable default_geogrid_params"
  by (simp add: growable_def ends_with_number_def default_geogrid_params_def)

lemma appended_len:
  assumes "appended key params p1" and "seq (lookup params key) py_len = Inr n"
  shows "seq (lookup p1 key) py_len = Inr (Suc n) \<and> nonempty_list p1 key"
  using assms by (auto simp add: appended_def lookup_def update_conv' nonempty_list_def)

lemma appended_not_empty_loop:
  assumes "append_entry sm key params = Inr p1" and "key \<in> set list_params"
    and "key = ''parent_id'' \<or> key = ''parent_grid_ratio'' \<Longrightarrow> nonempty_list params key"
  shows "appended key params p1"
proof -
  from append_entry_Inr[OF assms(1)] consider "appended key params p1"
    | v where "map_of params key = Some v" "py_len v = Inr 0"
        "key = ''parent_id'' \<or> key = ''parent_grid_ratio''"
    using assms(2) by blast
  then show ?thesis
  proof cases
    case 1
    then show ?thesis .
  next
    case 2
    from assms(3)[OF 2(3)] 2(1,2) have False
      by (cases v) (auto simp add: nonempty_list_def)
    then show ?thesis ..
  qed
qed

lemma grow_terminates_aux:
  assumes "key \<in> set list_params"
  shows "(key = ''parent_id'' \<or> key = ''parent_grid_ratio'' \<longrightarrow> nonempty_list params key) \<Longrightarrow>
     seq (lookup params key) py_len = Inr n \<Longrightarrow>
     nat (m - int n) = d \<Longrightarrow> \<exists>r. grow sm key m params = Some r"
proof (induction d arbitrary: params n)
  case 0
  then have "\<not> int n < m" by simp
  with 0 show ?case by (subst grow.simps) simp
next
  case (Suc d)
  then have lt: "int n < m" by simp
  show ?case
  proof (cases "append_entry sm key params")
    case (Inl e)
    with Suc.prems lt show ?thesis by (subst grow.simps) simp
  next
    case (Inr p1)
    from Suc.prems(1) have "appended key params p1"
      by (intro appended_not_empty_loop[OF Inr assms]) simp
    from appended_len[OF this Suc.prems(2)]
    have l1: "seq (lookup p1 key) py_len = Inr (Suc n)" and ne: "nonempty_list p1 key"
      by simp_all
    from Suc.prems(3) have "nat (m - int (Suc n)) = d" by simp
    from Suc.IH[OF _ l1 this] ne obtain r where "grow sm key m p1 = Some r" by blast
    with Suc.prems lt Inr show ?thesis by (subst grow.simps) simp
  qed
qed

lemma grow_terminates:
  assumes "key \<in> set list_params"
    and "key = ''parent_id'' \<or> key = ''parent_grid_ratio'' \<Longrightarrow> nonempty_list params key"
  shows "\<exists>r. grow sm key m params = Some r"
proof (cases "seq (lookup params key) py_len")
  case (Inl e)
  then show ?thesis by (subst grow.simps) simp
next
  case (Inr n)
  from assms(2) show ?thesis
    by (intro grow_terminates_aux[OF assms(1) _ Inr refl]) simp
qed

lemma adjust_keys_terminates:
  assumes "set ks \<subseteq> set list_params" and "distinct ks"
    and "''parent_id'' \<in> set ks \<Longrightarrow> nonempty_list params ''parent_id''"
    and "''parent_grid_ratio'' \<in> set ks \<Longrightarrow> nonempty_list params ''parent_grid_ratio''"
  shows "\<exists>r. adjust_keys sm ks m params = Some r"
  using assms
proof (induction ks arbitrary: params)
  case Nil
  then show ?case by simp
next
  case (Cons key ks)
  from Cons.prems have key: "key \<in> set list_params" and ks: "set ks \<subseteq> set list_params"
    and dk: "distinct ks" and nk: "key \<notin> set ks"
    by simp_all
  have pre: "\<And>p. (\<forall>k. k \<noteq> key \<longrightarrow> map_of p k = map_of params k) \<Longrightarrow>
     \<exists>r. adjust_keys sm ks m p = Some r"
  proof -
    fix p assume eq: "\<forall>k. k \<noteq> key \<longrightarrow> map_of p k = map_of params k"
    show "\<exists>r. adjust_keys sm ks m p = Some r"
    proof (rule Cons.IH[OF ks dk])
      assume a: "''parent_id'' \<in> set ks"
      with nk have "''parent_id'' \<noteq> key" by auto
      with eq Cons.prems(3) a show "nonempty_list p ''parent_id''"
        by (simp add: nonempty_list_def)
    next
      assume a: "''parent_grid_ratio'' \<in> set ks"
      with nk have "''parent_grid_ratio'' \<noteq> key" by auto
      with eq Cons.prems(4) a show "nonempty_list p ''parent_grid_ratio''"
        by (simp add: nonempty_list_def)
    qed
  qed
  show ?case
  proof (cases "map_of params key = None")
    case True
    with pre[of params] show ?thesis by simp
  next
    case False
    then obtain v0 where v0: "map_of params key = Some v0" by auto
    have "\<exists>r. grow sm key m params = Some r"
      using Cons.prems(3,4) by (intro grow_terminates[OF key]) auto
    then obtain r where r: "grow sm key m params = Some r" by blast
    show ?thesis
    proof (cases r)
      case (Inl e)
      with r v0 show ?thesis by simp
    next
      case (Inr p1)
      show ?thesis
      proof (cases "trim key m p1")
        case (Inl e)
        with r Inr v0 show ?thesis by simp
      next
        case p2: (Inr p2)
        from grow_frame[OF r[unfolded Inr]] trim_frame[OF p2]
        have "\<forall>k. k \<noteq> key \<longrightarrow> map_of p2 k = map_of params k" by simp
        from pre[OF this] r Inr p2 v0 show ?thesis by simp
      qed
    qed
  qed
qed

lemma adjust_terminates:
  assumes "nonempty_list params ''parent_id''" and "nonempty_list params ''parent_grid_ratio''"
  shows "\<exists>r. adjust_params_for_max_dom sm params m = Some r"
  unfolding adjust_params_for_max_dom_def
  using assms by (intro adjust_keys_terminates) (simp_all add: list_params_def)

lemma grow_diverges_aux:
  "grow sm key m params = Some y \<Longrightarrow>
     \<not> ((key = ''parent_id'' \<or> key = ''parent_grid_ratio'') \<and> 1 \<le> m \<and>
        map_of params key = Some (PList []))"
proof (rule grow.raw_induct[where P = "\<lambda>sm key m params y.
     \<not> ((key = ''parent_id'' \<or> key = ''parent_grid_ratio'') \<and> 1 \<le> m \<and>
        map_of params key = Some (PList []))"])
  fix g sm' key' m' ps y'
  assume IH: "\<And>s k m p y. g s k m p = Some y \<Longrightarrow>
      \<not> ((k = ''parent_id'' \<or> k = ''parent_grid_ratio'') \<and> 1 \<le> m \<and>
        map_of p k = Some (PList []))"
    and step: "(case seq (lookup ps key') py_len of
        Inl e \<Rightarrow> Some (Inl e)
      | Inr n \<Rightarrow>
          if int n < m' then
            (case append_entry sm' key' ps of
               Inl e \<Rightarrow> Some (Inl e)
             | Inr params' \<Rightarrow> g sm' key' m' params')
          else Some (Inr ps)) = Some y'"
  show "\<not> ((key' = ''parent_id'' \<or> key' = ''parent_grid_ratio'') \<and> 1 \<le> m' \<and>
        map_of ps key' = Some (PList []))"
  proof
    assume a: "(key' = ''parent_id'' \<or> key' = ''parent_grid_ratio'') \<and> 1 \<le> m' \<and>
        map_of ps key' = Some (PList [])"
    then have "append_entry sm' key' ps = Inr ps"
      by (auto simp add: append_entry_def lookup_def)
    with step a have "g sm' key' m' ps = Some y'"
      by (simp add: lookup_def)
    from IH[OF this] a show False by blast
  qed
qed

lemma grow_diverges:
  assumes "key = ''parent_id'' \<or> key = ''parent_grid_ratio''" and "1 \<le> m"
    and "map_of params key = Some (PList [])"
  shows "grow sm key m params = None"
  using grow_diverges_aux[of sm key m params] assms
  by (cases "grow sm key m params") auto


text \<open>The model evaluated on the built-in defaults, for three domains.\<close>

lemmas sync_eval_simps =
  adjust_params_for_max_dom_def list_params_def grow.simps lookup_def append_entry_def
  append_to_def trim_def slice_to_def norm_index_def dim_covers_def centred_start_def
  default_geogrid_params_def

lemma adjust_defaults_3:
  "adjust_params_for_max_dom sm default_geogrid_params 3 = Some (Inr geogrid_3_domains)"
  by (simp add: sync_eval_simps geogrid_3_domains_def)

lemma default_geogrid_well_formed:
  "is_dict default_geogrid_params" "has_list_length default_geogrid_params 1"
  "nonempty_list default_geogrid_params ''parent_id''"
  "nonempty_list default_geogrid_params ''parent_grid_ratio''"
  by (simp_all add: is_dict_def has_list_length_def nonempty_list_def list_params_def
      default_geogrid_params_def)

section \<open>Facts about text\<close>

lemma dropWhile_clean: "clean s \<Longrightarrow> dropWhile is_space (s @ t) = s @ t"
  by (cases s) (simp_all add: clean_def)

lemma strip_padded:
  assumes "list_all is_space a" and "clean s" and "list_all is_space b"
  shows "strip (a @ s @ b) = s"
proof -
  from assms(1) have "dropWhile is_space (a @ s @ b) = dropWhile is_space (s @ b)"
    by (intro dropWhile_append2) (simp add: list_all_iff)
  also have "\<dots> = s @ b" using assms(2) by (rule dropWhile_clean)
  finally have 1: "dropWhile is_space (a @ s @ b) = s @ b" .
  from assms(3) have "dropWhile is_space (rev b @ rev s) = dropWhile is_space (rev s)"
    by (intro dropWhile_append2) (simp add: list_all_iff)
  also have "\<dots> = rev s"
    using assms(2) by (cases s rule: rev_cases) (simp_all add: clean_def)
  finally have 2: "dropWhile is_space (rev b @ rev s) = rev s" .
  show ?thesis by (simp add: strip_def 1 2)
qed

lemma strip_clean: "clean s \<Longrightarrow> strip s = s"
  using strip_padded[of "[]" s "[]"] by simp

lemma strip_space_clean: "clean s \<Longrightarrow> strip (CHR '' '' # s) = s"
  using strip_padded[of "'' ''" s "[]"] by (simp add: is_space_def)

lemma strip_clean_space: "clean s \<Longrightarrow> strip (s @ '' '') = s"
  using strip_padded[of "[]" s "'' ''"] by (simp add: is_space_def)

lemma clean_append: "clean s \<Longrightarrow> clean t \<Longrightarrow> clean (s @ m @ t)"
  by (cases s; cases t rule: rev_cases) (simp_all add: clean_def)

lemma clean_snoc: "clean s \<Longrightarrow> \<not> is_space c \<Longrightarrow> clean (s @ m @ [c])"
  by (cases s) (simp_all add: clean_def)

lemma split_first_append:
  assumes "c \<notin> set a"
  shows "split_first c (a @ c # b) = Some (a, b)"
proof -
  from assms have "takeWhile (\<lambda>x. x \<noteq> c) (a @ c # b) = a"
    by (induction a) auto
  moreover from assms have "dropWhile (\<lambda>x. x \<noteq> c) (a @ c # b) = c # b"
    by (induction a) auto
  ultimately show ?thesis by (simp add: split_first_def)
qed

lemma split_on_no_sep: "c \<notin> set s \<Longrightarrow> split_on c s = [s]"
  by (induction s) auto

lemma split_on_append:
  assumes "c \<notin> set a"
  shows "split_on c (a @ c # b) = a # split_on c b"
  using assms by (induction a) auto

lemma split_on_join:
  assumes "\<forall>t \<in> set ts. CHR '','' \<notin> set t" and "ts \<noteq> []"
  shows "split_on CHR '','' (join '', '' ts) = hd ts # map (\<lambda>t. CHR '' '' # t) (tl ts)"
  using assms
proof (induction ts rule: induct_list012)
  case 1
  then show ?case by simp
next
  case (2 p)
  then show ?case by (simp add: split_on_no_sep)
next
  case (3 p q ps)
  from 3 have ih: "split_on CHR '','' (join '', '' (q # ps)) = q # map ((#) CHR '' '') ps"
    by simp
  have j: "join '', '' (p # q # ps) = p @ CHR '','' # (CHR '' '' # join '', '' (q # ps))"
    by simp
  have "CHR '','' \<notin> set p" using 3 by simp
  then have "split_on CHR '','' (join '', '' (p # q # ps)) =
      p # split_on CHR '','' (CHR '' '' # join '', '' (q # ps))"
    unfolding j by (rule split_on_append)
  also have "split_on CHR '','' (CHR '' '' # join '', '' (q # ps)) =
      (CHR '' '' # q) # map ((#) CHR '' '') ps"
    by (simp add: ih del: join.simps)
  finally show ?case by simp
qed

lemma file_lines_append:
  assumes "\<forall>c \<in> set l. \<not> is_line_break c"
  shows "file_lines (l @ newline @ rest) = l # file_lines rest"
  using assms by (induction l) (auto simp add: newline_def is_line_break_def)


lemma digit_char_props:
  assumes "d < 10"
  shows "is_digit (digit_char d)" and "digit_val (digit_char d) = d"
proof -
  from assms have "d \<in> {0,1,2,3,4,5,6,7,8,9}" by auto
  then show "is_digit (digit_char d)" and "digit_val (digit_char d) = d"
    by (auto simp add: digit_char_def is_digit_def digit_val_def)
qed

lemma dec_digits_digits: "list_all is_digit (dec_digits n)"
proof (induction n rule: dec_digits.induct)
  case (1 n)
  show ?case
  proof (cases "n < 10")
    case True
    then show ?thesis by (subst dec_digits.simps) (simp add: digit_char_props)
  next
    case False
    with 1 show ?thesis by (subst dec_digits.simps) (simp add: digit_char_props)
  qed
qed

lemma dec_digits_not_Nil: "dec_digits n \<noteq> []"
  by (subst dec_digits.simps) simp

lemma digits_val_snoc: "digits_val (s @ [c]) = 10 * digits_val s + digit_val c"
  by (simp add: digits_val_def)

lemma digits_val_dec_digits: "digits_val (dec_digits n) = n"
proof (induction n rule: dec_digits.induct)
  case (1 n)
  show ?case
  proof (cases "n < 10")
    case True
    then show ?thesis
      by (subst dec_digits.simps) (simp add: digits_val_def digit_char_props)
  next
    case False
    with 1 show ?thesis
      by (subst dec_digits.simps) (simp add: digits_val_snoc digit_char_props)
  qed
qed

lemma int_body_digits: "s \<noteq> [] \<Longrightarrow> list_all is_digit s \<Longrightarrow> int_body s"
proof (induction s rule: int_body.induct)
  case 1
  then show ?case by simp
next
  case (2 c)
  then show ?case by simp
next
  case (3 c d cs)
  then have "d \<noteq> CHR ''_''" by (auto simp add: is_digit_def)
  with 3 show ?case by simp
qed

lemma is_digit_not_special:
  assumes "is_digit c"
  shows "\<not> is_space c" "c \<noteq> CHR ''_''" "c \<noteq> CHR ''-''" "c \<noteq> CHR ''+''" "c \<noteq> CHR '',''"
    "c \<noteq> CHR ''.''" "c \<noteq> CHR 0x27" "c \<noteq> CHR 0x22" "\<not> is_line_break c"
  using assms by (auto simp add: is_digit_def is_space_def is_line_break_def)

lemma filter_digits: "list_all is_digit s \<Longrightarrow> filter (\<lambda>c. c \<noteq> CHR ''_'') s = s"
  by (induction s) (auto simp add: is_digit_not_special)

lemma digits_hd_last:
  assumes "s \<noteq> []" and "list_all is_digit s"
  shows "is_digit (hd s)" "is_digit (last s)"
  using assms by (auto simp add: list_all_iff)

lemma str_int_chars: "\<forall>c \<in> set (str_int i). is_digit c \<or> c = CHR ''-''"
  using dec_digits_digits by (auto simp add: str_int_def list_all_iff)

lemma str_int_not_Nil: "str_int i \<noteq> []"
  by (simp add: str_int_def dec_digits_not_Nil)

lemma str_int_hd_last: "is_digit (hd (str_int i)) \<or> hd (str_int i) = CHR ''-''" "is_digit (last (str_int i))"
  using digits_hd_last[OF dec_digits_not_Nil dec_digits_digits]
  by (auto simp add: str_int_def dec_digits_not_Nil)

lemma digits_clean:
  assumes "list_all is_digit ds" and "ds \<noteq> []"
  shows "clean ds"
  using digits_hd_last[OF assms(2,1)] assms(2) by (simp add: clean_def is_digit_not_special)

lemma py_int_core:
  assumes "list_all is_digit ds" and "ds \<noteq> []"
  shows "py_int ds = Some (int (digits_val ds))" "py_int (CHR ''-'' # ds) = Some (- int (digits_val ds))"
proof -
  from assms have hl: "hd ds \<noteq> CHR ''-''" "hd ds \<noteq> CHR ''+''"
    using digits_hd_last[OF assms(2,1)] by (auto simp add: is_digit_not_special)
  have s1: "strip ds = ds"
    using digits_clean[OF assms] by (rule strip_clean)
  have "clean (CHR ''-'' # ds)"
    using digits_clean[OF assms] by (simp add: clean_def is_space_def)
  then have s2: "strip (CHR ''-'' # ds) = CHR ''-'' # ds" by (rule strip_clean)
  from hl assms(2) have sw: "\<not> startswith ds ''-''" "\<not> startswith ds ''+''"
    by (cases ds; simp add: startswith_def)+
  show "py_int ds = Some (int (digits_val ds))"
    using assms by (simp add: py_int_def s1 sw Let_def int_body_digits filter_digits)
  show "py_int (CHR ''-'' # ds) = Some (- int (digits_val ds))"
    using assms by (simp add: py_int_def s2 Let_def startswith_def int_body_digits filter_digits)
qed

lemma py_int_str_int: "py_int (str_int i) = Some i"
  using py_int_core[OF dec_digits_digits dec_digits_not_Nil]
  by (simp add: str_int_def digits_val_dec_digits)


lemma quote_props:
  "clean (quote s)" "quoted (quote s)" "butlast (tl (quote s)) = s"
  "plain_text s \<Longrightarrow> plain_text (quote s)"
  by (simp_all add: quote_def clean_def quoted_def startswith_def endswith_def is_space_def
      plain_text_def is_line_break_def)

lemma parse_scalar_quote: "parse_scalar py_float (quote s) = SStr s"
  by (simp add: parse_scalar_def quote_props)

lemma int_char_props:
  assumes "is_digit c \<or> c = CHR ''-''"
  shows "c \<noteq> CHR '',''" "c \<noteq> CHR ''.''" "\<not> is_line_break c" "\<not> is_space c"
    "c \<noteq> CHR 0x27" "c \<noteq> CHR 0x22"
  using assms by (auto simp add: is_digit_def is_line_break_def is_space_def)

lemma str_int_props:
  "clean (str_int i)" "plain_text (str_int i)" "\<not> quoted (str_int i)"
  "CHR ''.'' \<notin> set (str_int i)"
proof -
  have h: "is_digit (hd (str_int i)) \<or> hd (str_int i) = CHR ''-''"
    and l: "is_digit (last (str_int i)) \<or> last (str_int i) = CHR ''-''"
    using str_int_hd_last[of i] by simp_all
  show "clean (str_int i)"
    using int_char_props(4)[OF h] int_char_props(4)[OF l] str_int_not_Nil[of i]
    by (simp add: clean_def)
  show "plain_text (str_int i)"
    using str_int_chars[of i] int_char_props(1,3)
    by (simp add: plain_text_def list_all_iff)
  show "\<not> quoted (str_int i)"
    using int_char_props(5,6)[OF h]
    by (cases "str_int i") (simp_all add: quoted_def startswith_def)
  show "CHR ''.'' \<notin> set (str_int i)"
    using str_int_chars[of i] int_char_props(2) by blast
qed

lemma parse_scalar_str_int: "parse_scalar py_float (str_int i) = SInt i"
  by (simp add: parse_scalar_def str_int_props py_int_str_int)

lemma parse_scalar_float:
  "float_ok float_str py_float x \<Longrightarrow> parse_scalar py_float (float_str x) = SFloat x"
  by (simp add: parse_scalar_def float_ok_def)

text \<open>The text of one entry of a list, as format_value writes it.\<close>

lemma elem_text_strings:
  assumes "is_str x" and "scalar_ok float_str py_float x"
  shows "parse_scalar py_float (quote (py_str float_str x)) = x"
    and "clean (quote (py_str float_str x))" and "plain_text (quote (py_str float_str x))"
  using assms by (cases x; simp add: parse_scalar_quote quote_props)+

lemma elem_text_numbers:
  assumes "\<not> is_str x" and "scalar_ok float_str py_float x"
  shows "parse_scalar py_float (py_str float_str x) = x"
    and "clean (py_str float_str x)" and "plain_text (py_str float_str x)"
  using assms
  by (cases x; simp add: parse_scalar_str_int str_int_props parse_scalar_float float_ok_def)+

lemma format_scalar:
  assumes "scalar_ok float_str py_float x"
  shows "parse_scalar py_float (format_value float_str (Sc x)) = x"
    and "clean (format_value float_str (Sc x))" and "plain_text (format_value float_str (Sc x))"
  using assms
  by (cases x; simp add: parse_scalar_quote quote_props parse_scalar_str_int str_int_props
      parse_scalar_float float_ok_def)+


lemma endswith_snoc: "endswith (s @ [c]) [c]"
  by (simp add: endswith_def)

lemma join_hd_last:
  assumes "ts \<noteq> []" and "\<forall>t \<in> set ts. t \<noteq> []"
  shows "join sep ts \<noteq> [] \<and> hd (join sep ts) = hd (hd ts) \<and> last (join sep ts) = last (last ts)"
  using assms
proof (induction ts rule: induct_list012)
  case 1
  then show ?case by simp
next
  case (2 p)
  then show ?case by simp
next
  case (3 p q ps)
  then have "join sep (q # ps) \<noteq> [] \<and> last (join sep (q # ps)) = last (last (q # ps))"
    by simp
  with 3 show ?case by simp
qed

lemma join_clean:
  assumes "ts \<noteq> []" and "\<forall>t \<in> set ts. clean t"
  shows "clean (join sep ts)"
proof -
  from assms(2) have ne: "\<forall>t \<in> set ts. t \<noteq> []" by (auto simp add: clean_def)
  from assms have "clean (hd ts)" "clean (last ts)" by simp_all
  with join_hd_last[OF assms(1) ne, of sep] show ?thesis by (simp add: clean_def)
qed

lemma join_set: "set (join sep ts) \<subseteq> set sep \<union> \<Union> (set ` set ts)"
  by (induction ts rule: induct_list012) auto

lemma join_no_break:
  assumes "\<forall>t \<in> set ts. plain_text t"
  shows "list_all (\<lambda>c. \<not> is_line_break c) (join '', '' ts)"
proof -
  have "\<forall>c \<in> set '', '' \<union> \<Union> (set ` set ts). \<not> is_line_break c"
    using assms by (auto simp add: plain_text_def list_all_iff is_line_break_def)
  with join_set[of "'', ''" ts] show ?thesis by (auto simp add: list_all_iff)
qed

lemma join_comma:
  assumes "\<forall>t \<in> set ts. plain_text t"
  shows "CHR '','' \<in> set (join '', '' ts) \<longleftrightarrow> 2 \<le> length ts"
  using assms
proof (induction ts rule: induct_list012)
  case 1
  then show ?case by simp
next
  case (2 p)
  then show ?case by (auto simp add: plain_text_def list_all_iff)
next
  case (3 p q ps)
  then show ?case by simp
qed

lemma read_back_spaced:
  assumes "\<forall>x \<in> set xs. parse_scalar py_float (et x) = x \<and> clean (et x)"
  shows "map (\<lambda>v. parse_scalar py_float (strip v)) (map (\<lambda>t. CHR '' '' # t) (map et xs)) = xs"
  using assms by (induction xs) (simp_all add: strip_space_clean)

lemma parse_value_read:
  assumes "clean fv"
  shows "parse_value py_float (CHR '' '' # fv @ '','') =
     (if CHR '','' \<in> set fv
      then PList (map (\<lambda>v. parse_scalar py_float (strip v)) (split_on CHR '','' fv))
      else Sc (parse_scalar py_float fv))"
proof -
  have "clean (fv @ [] @ '','')"
    using assms by (intro clean_snoc) (simp_all add: is_space_def)
  then have "strip ('' '' @ (fv @ '','') @ []) = fv @ '',''"
    by (intro strip_padded) (simp_all add: is_space_def)
  then have "strip (CHR '' '' # fv @ '','') = fv @ '',''" by simp
  then show ?thesis
    by (simp add: parse_value_def Let_def endswith_snoc)
qed

lemma parse_value_format:
  assumes "value_ok float_str py_float key v"
  shows "parse_value py_float (CHR '' '' # format_value float_str v @ '','') = stored_form v"
    and "clean (format_value float_str v)"
    and "list_all (\<lambda>c. \<not> is_line_break c) (format_value float_str v)"
proof -
  have "parse_value py_float (CHR '' '' # format_value float_str v @ '','') = stored_form v
     \<and> clean (format_value float_str v)
     \<and> list_all (\<lambda>c. \<not> is_line_break c) (format_value float_str v)"
  proof (cases v)
    case (Sc x)
    with assms have ok: "scalar_ok float_str py_float x" by simp
    from format_scalar[OF ok] have
      p: "parse_scalar py_float (format_value float_str (Sc x)) = x"
      and c: "clean (format_value float_str (Sc x))"
      and t: "plain_text (format_value float_str (Sc x))"
      by simp_all
    from t have nc: "CHR '','' \<notin> set (format_value float_str (Sc x))"
      and nb: "list_all (\<lambda>c. \<not> is_line_break c) (format_value float_str (Sc x))"
      by (auto simp add: plain_text_def list_all_iff)
    show ?thesis
      unfolding Sc using p c nc nb by (simp add: parse_value_read)
  next
    case (PList xs)
    define et where "et = (if list_all is_str xs then (\<lambda>x. quote (py_str float_str x))
                           else py_str float_str)"
    have fv: "format_value float_str (PList xs) = join '', '' (map et xs)"
      by (simp add: et_def)
    from assms PList have ne: "xs \<noteq> []"
      and homo: "list_all is_str xs \<or> list_all (\<lambda>x. \<not> is_str x) xs"
      and ok: "\<forall>x \<in> set xs. scalar_ok float_str py_float x"
      by (simp_all add: list_all_iff)
    have el: "\<forall>x \<in> set xs. parse_scalar py_float (et x) = x \<and> clean (et x) \<and> plain_text (et x)"
    proof
      fix x assume x: "x \<in> set xs"
      with ok have okx: "scalar_ok float_str py_float x" by simp
      show "parse_scalar py_float (et x) = x \<and> clean (et x) \<and> plain_text (et x)"
      proof (cases "list_all is_str xs")
        case True
        with x have "is_str x" by (simp add: list_all_iff)
        from elem_text_strings[OF this okx] True show ?thesis by (simp add: et_def)
      next
        case False
        with homo x have "\<not> is_str x" by (auto simp add: list_all_iff)
        from elem_text_numbers[OF this okx] False show ?thesis by (simp add: et_def)
      qed
    qed
    let ?ts = "map et xs"
    from el have pl: "\<forall>t \<in> set ?ts. plain_text t" and cl: "\<forall>t \<in> set ?ts. clean t"
      by simp_all
    from ne have tne: "?ts \<noteq> []" by simp
    have c: "clean (join '', '' ?ts)" using tne cl by (rule join_clean)
    have nb: "list_all (\<lambda>c. \<not> is_line_break c) (join '', '' ?ts)" using pl by (rule join_no_break)
    have "parse_value py_float (CHR '' '' # join '', '' ?ts @ '','') = stored_form (PList xs)"
    proof (cases "2 \<le> length xs")
      case True
      then have comma: "CHR '','' \<in> set (join '', '' ?ts)"
        using join_comma[OF pl] by simp
      from pl have nc: "\<forall>t \<in> set ?ts. CHR '','' \<notin> set t"
        by (auto simp add: plain_text_def list_all_iff)
      have sp: "split_on CHR '','' (join '', '' ?ts) = hd ?ts # map (\<lambda>t. CHR '' '' # t) (tl ?ts)"
        using nc tne by (rule split_on_join)
      have "map (\<lambda>v. parse_scalar py_float (strip v)) (hd ?ts # map (\<lambda>t. CHR '' '' # t) (tl ?ts)) = xs"
      proof (cases xs)
        case Nil
        with ne show ?thesis by simp
      next
        case (Cons a ys)
        with el have a: "parse_scalar py_float (et a) = a" "clean (et a)"
          and ys: "\<forall>x \<in> set ys. parse_scalar py_float (et x) = x \<and> clean (et x)"
          by simp_all
        from read_back_spaced[OF ys] a show ?thesis
          unfolding Cons by (simp add: strip_clean)
      qed
      moreover from True obtain a b ys where "xs = a # b # ys"
        by (cases xs; cases "tl xs") auto
      then have "stored_form (PList xs) = PList xs" by simp
      ultimately show ?thesis
        using c comma sp by (simp add: parse_value_read)
    next
      case False
      with ne obtain x where x: "xs = [x]"
        by (cases xs; cases "tl xs") auto
      with el have "parse_scalar py_float (et x) = x" "plain_text (et x)" by simp_all
      then have "parse_scalar py_float (et x) = x" "CHR '','' \<notin> set (et x)"
        by (auto simp add: plain_text_def list_all_iff)
      then show ?thesis
        using c x by (simp add: parse_value_read)
    qed
    with c nb show ?thesis unfolding PList fv by simp
  qed
  then show "parse_value py_float (CHR '' '' # format_value float_str v @ '','') = stored_form v"
    and "clean (format_value float_str v)"
    and "list_all (\<lambda>c. \<not> is_line_break c) (format_value float_str v)"
    by simp_all
qed


section \<open>Facts about the reader\<close>

lemma startswith_single: "startswith s [c] \<longleftrightarrow> s \<noteq> [] \<and> hd s = c"
  by (cases s) (simp_all add: startswith_def)

lemma parse_line_unknown_section:
  assumes "opens_section raw" and "\<not> known_section raw"
  shows "parse_line py_float raw state = state"
  using assms
  by (auto simp add: parse_line_def opens_section_def known_section_def Let_def startswith_single)

lemma parse_line_no_section:
  assumes "\<not> (opens_section raw \<and> known_section raw)"
  shows "parse_line py_float raw (st, None) = (st, None)"
  using assms
  by (auto simp add: parse_line_def opens_section_def known_section_def Let_def)

lemma parse_lines_no_section:
  assumes "\<forall>raw \<in> set ls. \<not> (opens_section raw \<and> known_section raw)"
  shows "parse_lines py_float ls (st, None) = (st, None)"
  using assms
  by (induction ls) (simp_all add: parse_lines_def parse_line_no_section)

lemma parse_line_stores:
  assumes "\<not> opens_section raw" and "strip raw \<noteq> []" and "\<not> startswith (strip raw) ''!''"
    and "\<not> startswith (strip raw) ''/''"
    and "split_first CHR ''='' (strip raw) = Some (name_part, value_part)"
  shows "parse_line py_float raw (st, Some sec) =
     (set_param sec (strip name_part) (parse_value py_float value_part) st, Some sec)"
  using assms
  by (auto simp add: parse_line_def opens_section_def Let_def startswith_single)

lemmas reader_eval_simps =
  read_existing_namelist_def parse_lines_def parse_line_def newline_def is_line_break_def
  strip_def is_space_def startswith_def lower_def lower_char_def empty_store_def
  split_first_def parse_value_def endswith_def parse_scalar_def quoted_def py_int_def
  digits_val_def digit_val_def is_digit_def wrap_store_def wrap_entry_def wrap_keys_def

section \<open>Facts about writing and reading back\<close>

lemma param_line_text: "param_line float_str kv = param_text float_str kv @ newline"
  by (simp add: param_line_def param_text_def)

lemma key_okD:
  assumes "key_ok k"
  shows "clean k" "CHR ''='' \<notin> set k" "\<forall>c \<in> set k. \<not> is_line_break c"
    "k \<noteq> []" "hd k \<noteq> CHR ''!''" "hd k \<noteq> CHR ''&''" "hd k \<noteq> CHR ''/''"
  using assms by (auto simp add: key_ok_def list_all_iff clean_def)

lemma param_text_no_break:
  assumes "key_ok k" and "value_ok float_str py_float k v"
  shows "\<forall>c \<in> set (param_text float_str (k, v)). \<not> is_line_break c"
  using key_okD(3)[OF assms(1)] parse_value_format(3)[OF assms(2)]
  by (auto simp add: param_text_def list_all_iff is_line_break_def)

lemma parse_line_param:
  assumes k: "key_ok k" and v: "value_ok float_str py_float k v"
  shows "parse_line py_float (param_text float_str (k, v)) (st, Some sec) =
     (set_param sec k (stored_form v) st, Some sec)"
proof -
  let ?fv = "format_value float_str v"
  let ?line = "k @ '' = '' @ ?fv @ '',''"
  have raw: "param_text float_str (k, v) = '' '' @ ?line @ []"
    by (simp add: param_text_def)
  have c1: "clean (?fv @ '','')"
    using clean_snoc[OF parse_value_format(2)[OF v], of "CHR '',''" "[]"]
    by (simp add: is_space_def)
  have "clean (k @ '' = '' @ (?fv @ '',''))"
    using key_okD(1)[OF k] c1 by (rule clean_append)
  then have cl: "clean ?line" by simp
  have st: "strip (param_text float_str (k, v)) = ?line"
    unfolding raw using cl by (intro strip_padded) (simp_all add: is_space_def)
  from key_okD[OF k] have hd: "hd ?line = hd k" "?line \<noteq> []" by simp_all
  have sw: "\<And>c. hd k \<noteq> c \<Longrightarrow> \<not> startswith ?line [c]"
    using hd by (simp add: startswith_single)
  have "CHR ''='' \<notin> set (k @ '' '')" using key_okD(2)[OF k] by simp
  from split_first_append[OF this, of "CHR '' '' # ?fv @ '',''"]
  have sp: "split_first CHR ''='' ?line = Some (k @ '' '', CHR '' '' # ?fv @ '','')"
    by simp
  have "parse_line py_float (param_text float_str (k, v)) (st, Some sec) =
     (set_param sec (strip (k @ '' '')) (parse_value py_float (CHR '' '' # ?fv @ '','')) st, Some sec)"
    using key_okD[OF k] hd(2)
    by (intro parse_line_stores) (simp_all only: st sp opens_section_def sw not_False_eq_True)
  then show ?thesis
    by (simp add: strip_clean_space key_okD(1)[OF k] parse_value_format(1)[OF v])
qed

lemma parse_lines_append:
  "parse_lines py_float (a @ b) s = parse_lines py_float b (parse_lines py_float a s)"
  by (simp add: parse_lines_def)

lemma parse_lines_Cons:
  "parse_lines py_float (l # ls) s = parse_lines py_float ls (parse_line py_float l s)"
  by (simp add: parse_lines_def)

lemma parse_lines_Nil [simp]: "parse_lines py_float [] s = s"
  by (simp add: parse_lines_def)

lemma set_param_put:
  "set_param sec k v st = put_section sec (AList.update k v (get_section sec st)) st"
  by (cases sec) simp_all

lemma get_put [simp]: "get_section sec (put_section sec d st) = d"
  by (cases sec) simp_all

lemma put_put [simp]: "put_section sec d (put_section sec d' st) = put_section sec d st"
  by (cases sec) simp_all

lemma parse_lines_params:
  assumes "\<forall>kv \<in> set params. key_ok (fst kv) \<and> value_ok float_str py_float (fst kv) (snd kv)"
  shows "parse_lines py_float (map (param_text float_str) params) (st, Some sec) =
     (put_section sec
        (foldl (\<lambda>d kv. AList.update (fst kv) (stored_form (snd kv)) d) (get_section sec st) params)
        st, Some sec)"
  using assms
proof (induction params arbitrary: st)
  case Nil
  show ?case by (cases sec) simp_all
next
  case (Cons kv params)
  obtain k v where kv: "kv = (k, v)" by (cases kv)
  with Cons.prems have "key_ok k" "value_ok float_str py_float k v" by simp_all
  from parse_line_param[OF this]
  have "parse_line py_float (param_text float_str kv) (st, Some sec) =
      (set_param sec k (stored_form v) st, Some sec)"
    by (simp add: kv)
  with Cons show ?case
    by (simp add: parse_lines_Cons kv set_param_put)
qed

lemma update_fresh: "k \<notin> fst ` set d \<Longrightarrow> AList.update k v d = d @ [(k, v)]"
  by (induction d) auto

lemma foldl_update_distinct:
  assumes "distinct (map fst d @ map fst params)"
  shows "foldl (\<lambda>d kv. AList.update (fst kv) (f (snd kv)) d) d params =
     d @ map (\<lambda>kv. (fst kv, f (snd kv))) params"
  using assms
proof (induction params arbitrary: d)
  case Nil
  then show ?case by simp
next
  case (Cons kv params)
  then have "fst kv \<notin> fst ` set d" by auto
  then have u: "AList.update (fst kv) (f (snd kv)) d = d @ [(fst kv, f (snd kv))]"
    by (rule update_fresh)
  from Cons.prems have "distinct (map fst (d @ [(fst kv, f (snd kv))]) @ map fst params)"
    by auto
  from Cons.IH[OF this] show ?case by (simp add: u)
qed

lemma wrap_stored:
  assumes "value_ok float_str py_float k v"
  shows "wrap_entry (k, stored_form v) = (k, v)"
proof (cases v)
  case (Sc x)
  with assms show ?thesis by (simp add: wrap_entry_def)
next
  case (PList xs)
  show ?thesis
  proof (cases "length xs = 1")
    case True
    then obtain x where "xs = [x]" by (cases xs) auto
    with assms PList show ?thesis by (simp add: wrap_entry_def)
  next
    case False
    with assms PList obtain a b ys where "xs = a # b # ys"
      by (cases xs; cases "tl xs") auto
    with PList show ?thesis by (simp add: wrap_entry_def)
  qed
qed

lemma wrap_stored_section:
  assumes "\<forall>kv \<in> set params. value_ok float_str py_float (fst kv) (snd kv)"
  shows "map wrap_entry (map (\<lambda>kv. (fst kv, stored_form (snd kv))) params) = params"
  using assms by (induction params) (auto simp add: wrap_stored)


lemma file_lines_newline: "file_lines (newline @ rest) = [] # file_lines rest"
  by (simp add: newline_def is_line_break_def)

lemma file_lines_params:
  assumes "\<forall>kv \<in> set params. key_ok (fst kv) \<and> value_ok float_str py_float (fst kv) (snd kv)"
  shows "file_lines (concat (map (param_line float_str) params) @ rest) =
     map (param_text float_str) params @ file_lines rest"
  using assms
proof (induction params)
  case Nil
  then show ?case by simp
next
  case (Cons kv params)
  obtain k v where kv: "kv = (k, v)" by (cases kv)
  with Cons.prems have "key_ok k" "value_ok float_str py_float k v" by simp_all
  from param_text_no_break[OF this]
  have "\<forall>c \<in> set (param_text float_str kv). \<not> is_line_break c"
    by (simp add: kv)
  from file_lines_append[OF this] Cons show ?case
    by (simp add: param_line_text)
qed

lemma parse_line_headers:
  "parse_line py_float ''&share'' (st, cur) = (st, Some Share)"
  "parse_line py_float ''&geogrid'' (st, cur) = (st, Some Geogrid)"
  "parse_line py_float ''&ungrib'' (st, cur) = (st, Some Ungrib)"
  "parse_line py_float ''&metgrid'' (st, cur) = (st, Some Metgrid)"
  "parse_line py_float ''/'' (st, cur) = (st, None)"
  "parse_line py_float [] (st, cur) = (st, cur)"
  by (simp_all add: parse_line_def strip_def is_space_def startswith_def lower_def lower_char_def)

lemma section_block:
  assumes ok: "section_ok float_str py_float params" and empty: "get_section sec st = []"
  shows "parse_lines py_float (map (param_text float_str) params) (st, Some sec) =
     (put_section sec (map (\<lambda>kv. (fst kv, stored_form (snd kv))) params) st, Some sec)"
proof -
  from ok have all: "\<forall>kv \<in> set params. key_ok (fst kv) \<and> value_ok float_str py_float (fst kv) (snd kv)"
    and d: "distinct (map fst params)"
    by (simp_all add: section_ok_def list_all_iff is_dict_def)
  from d have "distinct (map fst ([] :: pdict) @ map fst params)" by simp
  from foldl_update_distinct[OF this, where f = stored_form] parse_lines_params[OF all, of st sec]
  show ?thesis by (simp add: empty)
qed

lemma section_lines:
  assumes ok: "section_ok float_str py_float params"
    and that: "\<forall>c \<in> set name. \<not> is_line_break c"
  shows "file_lines (''&'' @ name @ newline @ concat (map (param_line float_str) params) @ ''/'' @ newline @ rest)
     = (''&'' @ name) # map (param_text float_str) params @ ''/'' # file_lines rest"
proof -
  from ok have all: "\<forall>kv \<in> set params. key_ok (fst kv) \<and> value_ok float_str py_float (fst kv) (snd kv)"
    by (simp add: section_ok_def list_all_iff)
  have 1: "\<forall>c \<in> set (''&'' @ name). \<not> is_line_break c"
    using that by (simp add: is_line_break_def)
  have 2: "\<forall>c \<in> set ''/''. \<not> is_line_break c" by (simp add: is_line_break_def)
  show ?thesis
    using file_lines_append[OF 1, of "concat (map (param_line float_str) params) @ ''/'' @ newline @ rest"]
      file_lines_params[OF all, of "''/'' @ newline @ rest"]
      file_lines_append[OF 2, of rest]
    by simp
qed

lemma wrap_section:
  assumes "section_ok float_str py_float params"
  shows "map wrap_entry (map (\<lambda>kv. (fst kv, stored_form (snd kv))) params) = params"
  using assms by (intro wrap_stored_section[of _ float_str py_float]) (simp add: section_ok_def list_all_iff)

lemma read_written:
  assumes "store_ok float_str py_float st"
  shows "read_existing_namelist py_float (concat (namelist_writes float_str st)) = st"
proof -
  from assms have ok: "section_ok float_str py_float (share_params st)"
    "section_ok float_str py_float (geogrid_params st)"
    "section_ok float_str py_float (ungrib_params st)"
    "section_ok float_str py_float (metgrid_params st)"
    by (simp_all add: store_ok_def)
  let ?pt = "param_text float_str"
  have nb: "\<forall>c \<in> set ''share''. \<not> is_line_break c" "\<forall>c \<in> set ''geogrid''. \<not> is_line_break c"
    "\<forall>c \<in> set ''ungrib''. \<not> is_line_break c" "\<forall>c \<in> set ''metgrid''. \<not> is_line_break c"
    by (simp_all add: is_line_break_def)
  let ?t4 = "''&'' @ ''metgrid'' @ newline @ concat (map (param_line float_str) (metgrid_params st)) @ ''/'' @ newline @ []"
  let ?t3 = "''&'' @ ''ungrib'' @ newline @ concat (map (param_line float_str) (ungrib_params st)) @ ''/'' @ newline @ (newline @ ?t4)"
  let ?t2 = "''&'' @ ''geogrid'' @ newline @ concat (map (param_line float_str) (geogrid_params st)) @ ''/'' @ newline @ (newline @ ?t3)"
  let ?t1 = "''&'' @ ''share'' @ newline @ concat (map (param_line float_str) (share_params st)) @ ''/'' @ newline @ (newline @ ?t2)"
  have wr: "concat (namelist_writes float_str st) = ?t1"
    by (simp add: namelist_writes_def section_writes_def)
  have l4: "file_lines ?t4 = ''&metgrid'' # map ?pt (metgrid_params st) @ [''/'', []]"
    using section_lines[OF ok(4) nb(4), of "[]"] by simp
  have l3: "file_lines ?t3 = ''&ungrib'' # map ?pt (ungrib_params st) @ ''/'' # [] # file_lines ?t4"
    using section_lines[OF ok(3) nb(3), of "newline @ ?t4"] by (simp only: file_lines_newline append_Cons append_Nil)
  have l2: "file_lines ?t2 = ''&geogrid'' # map ?pt (geogrid_params st) @ ''/'' # [] # file_lines ?t3"
    using section_lines[OF ok(2) nb(2), of "newline @ ?t3"] by (simp only: file_lines_newline append_Cons append_Nil)
  have l1: "file_lines ?t1 = ''&share'' # map ?pt (share_params st) @ ''/'' # [] # file_lines ?t2"
    using section_lines[OF ok(1) nb(1), of "newline @ ?t2"] by (simp only: file_lines_newline append_Cons append_Nil)
  let ?sf = "map (\<lambda>kv. (fst kv, stored_form (snd kv)))"
  let ?s1 = "put_section Share (?sf (share_params st)) empty_store"
  let ?s2 = "put_section Geogrid (?sf (geogrid_params st)) ?s1"
  let ?s3 = "put_section Ungrib (?sf (ungrib_params st)) ?s2"
  let ?s4 = "put_section Metgrid (?sf (metgrid_params st)) ?s3"
  have e: "get_section Share empty_store = []" "get_section Geogrid ?s1 = []"
    "get_section Ungrib ?s2 = []" "get_section Metgrid ?s3 = []"
    by (simp_all add: empty_store_def)
  note b = section_block[OF ok(1) e(1)] section_block[OF ok(2) e(2)]
    section_block[OF ok(3) e(3)] section_block[OF ok(4) e(4)]
  have p4: "parse_lines py_float (file_lines ?t4) (?s3, None) = (?s4, None)"
    unfolding l4
    by (simp only: parse_lines_Cons parse_lines_append parse_lines_Nil parse_line_headers b)
  have p3: "parse_lines py_float (file_lines ?t3) (?s2, None) = (?s4, None)"
    unfolding l3
    by (simp only: parse_lines_Cons parse_lines_append parse_line_headers b p4)
  have p2: "parse_lines py_float (file_lines ?t2) (?s1, None) = (?s4, None)"
    unfolding l2
    by (simp only: parse_lines_Cons parse_lines_append parse_line_headers b p3)
  have p1: "parse_lines py_float (file_lines ?t1) (empty_store, None) = (?s4, None)"
    unfolding l1
    by (simp only: parse_lines_Cons parse_lines_append parse_line_headers b p2)
  have f: "share_params ?s4 = ?sf (share_params st)" "geogrid_params ?s4 = ?sf (geogrid_params st)"
    "ungrib_params ?s4 = ?sf (ungrib_params st)" "metgrid_params ?s4 = ?sf (metgrid_params st)"
    by (simp_all add: empty_store_def)
  note w = wrap_section[OF ok(1)] wrap_section[OF ok(2)] wrap_section[OF ok(3)]
    wrap_section[OF ok(4)]
  have "wrap_store ?s4 =
      \<lparr>share_params = share_params st, geogrid_params = geogrid_params st,
       ungrib_params = ungrib_params st, metgrid_params = metgrid_params st\<rparr>"
    by (simp only: wrap_store_def f w)
  then have "wrap_store ?s4 = st" by simp
  then show ?thesis
    by (simp only: read_existing_namelist_def wr p1 fst_conv)
qed


text \<open>The model evaluated on the built-in defaults.\<close>

lemmas codec_eval_simps =
  reader_eval_simps namelist_writes_def section_writes_def param_line_def quote_def
  str_int_def dec_digits.simps digit_char_def float_str_whole_def py_float_plain_def
  default_store_def comma_path_store_def default_share_params_def default_geogrid_params_def
  default_ungrib_params_def default_metgrid_params_def write_then_read_def
  write_namelist_wps_def

lemma float_whole_ok:
  "float_ok float_str_whole py_float_plain 34" "float_ok float_str_whole py_float_plain (- 81)"
  "float_ok float_str_whole py_float_plain 30" "float_ok float_str_whole py_float_plain 60"
  by (simp_all add: float_ok_def float_str_whole_def py_float_plain_def str_int_def
      dec_digits.simps digit_char_def strip_def is_space_def startswith_def is_digit_def
      digits_val_def digit_val_def plain_text_def is_line_break_def clean_def quoted_def
      endswith_def)

lemma key_ok_eval:
  "key_ok k \<longleftrightarrow> k \<noteq> [] \<and> \<not> is_space (hd k) \<and> \<not> is_space (last k) \<and>
     list_all (\<lambda>c. c \<noteq> CHR ''='' \<and> \<not> is_line_break c) k \<and> hd k \<notin> set ''!&/''"
  by (simp add: key_ok_def clean_def)

lemma default_store_ok: "store_ok float_str_whole py_float_plain default_store"
  by (simp add: store_ok_def section_ok_def is_dict_def default_store_def
      default_share_params_def default_geogrid_params_def default_ungrib_params_def
      default_metgrid_params_def key_ok_eval is_space_def is_line_break_def wrap_keys_def
      plain_text_def float_whole_ok)

lemma three_domains_ok:
  "store_ok float_str_whole py_float_plain (default_store\<lparr>geogrid_params := geogrid_3_domains\<rparr>)"
  by (simp add: store_ok_def section_ok_def is_dict_def default_store_def
      default_share_params_def geogrid_3_domains_def default_ungrib_params_def
      default_metgrid_params_def key_ok_eval is_space_def is_line_break_def wrap_keys_def
      plain_text_def float_whole_ok)


section \<open>Results: nesting geometry\<close>

lemma round_half_even_close: "\<bar>of_int (round_half_even x) - x\<bar> \<le> 1 / 2"
proof -
  have "of_int \<lfloor>x\<rfloor> \<le> x" "x < of_int \<lfloor>x\<rfloor> + 1" by linarith+
  then show ?thesis
    by (auto simp add: round_half_even_def Let_def abs_if; linarith)
qed

lemma round_half_even_int [simp]: "round_half_even (of_int m) = m"
  by (simp add: round_half_even_def)

lemma ulp_exponent_range:
  assumes "0 < a" and "a < 2 ^ 53" and "0 < b" and "b \<le> 2 ^ 53"
  shows "ulp_exponent a b \<le> 0"
    and "2 powi (ulp_exponent a b) \<le> (of_int a / of_int b :: rat) / 2 ^ 52"
proof -
  let ?q = "of_int a / of_int b :: rat"
  let ?e0 = "bitlen a - bitlen b"
  define e where "e = (if ?q < 2 powi ?e0 then ?e0 - 1 else ?e0)"
  have q: "0 < ?q" using assms by simp
  have la: "1 \<le> bitlen a" using assms(1) by (simp add: bitlen_ge_iff_power)
  have "b < 2 ^ nat 54" using assms(4) by simp
  then have lb: "bitlen b \<le> 54" by (simp add: bitlen_le_iff_power)
  have lower: "(2::rat) powi e \<le> ?q"
  proof (cases "?q < 2 powi ?e0")
    case False
    then show ?thesis by (simp add: e_def)
  next
    case True
    have "(2::int) ^ nat (bitlen a - 1) \<le> a" and "b < 2 ^ nat (bitlen b)"
      using bitlen_bounds[OF assms(1)] bitlen_bounds[OF assms(3)] by simp_all
    then have 1: "(2::rat) ^ nat (bitlen a - 1) \<le> of_int a"
      and 2: "(of_int b :: rat) < 2 ^ nat (bitlen b)"
      by (metis of_int_le_iff of_int_numeral of_int_power, metis of_int_less_iff of_int_numeral of_int_power)
    have "?e0 - 1 = (bitlen a - 1) - bitlen b" by simp
    then have "(2::rat) powi (?e0 - 1) = 2 powi (bitlen a - 1) / 2 powi (bitlen b)"
      by (simp only: power_int_diff[of "2::rat" "bitlen a - 1" "bitlen b", simplified])
    also have "\<dots> = 2 ^ nat (bitlen a - 1) / 2 ^ nat (bitlen b)"
      using la bitlen_nonneg[of b] by (simp add: power_int_nonneg_exp)
    also have "\<dots> \<le> of_int a / 2 ^ nat (bitlen b)"
      using 1 by (simp add: divide_right_mono)
    also have "\<dots> \<le> ?q"
      using 2 assms by (simp add: frac_le)
    finally show ?thesis using True by (simp add: e_def)
  qed
  have "?q < 2 ^ 53"
  proof -
    have "?q \<le> of_int a" using assms by (simp add: divide_le_eq_1 mult_le_cancel_left1 field_simps)
    also have "\<dots> < 2 ^ 53" using assms(2) by (metis of_int_less_iff of_int_numeral of_int_power)
    finally show ?thesis .
  qed
  with lower have "(2::rat) powi e < 2 powi 53" by simp
  then have e53: "e < 53"
    by (intro power_int_le_imp_less_exp[of "2::rat" e 53]) simp_all
  have "e \<ge> ?e0 - 1" by (simp add: e_def)
  with la lb have elow: "- 54 \<le> e" by simp
  have ue: "ulp_exponent a b = e - 52"
    using elow assms by (simp add: ulp_exponent_def e_def Let_def)
  show "ulp_exponent a b \<le> 0" using e53 by (simp add: ue)
  have "(2::rat) powi (e - 52) = 2 powi e / 2 ^ 52"
    by (simp add: power_int_diff)
  also have "\<dots> \<le> ?q / 2 ^ 52" using lower by (simp add: divide_right_mono)
  finally show "2 powi (ulp_exponent a b) \<le> ?q / 2 ^ 52" by (simp add: ue)
qed

lemma true_div_close:
  assumes "0 < a" and "a < 2 ^ 53" and "0 < b" and "b \<le> 2 ^ 53"
  shows "\<exists>r. true_div a b = Inr r \<and> \<bar>r - of_int a / of_int b\<bar> < 1 / of_int b \<and>
           (b dvd a \<longrightarrow> r = of_int a / of_int b)"
proof -
  let ?q = "of_int a / of_int b :: rat"
  let ?u = "(2::rat) powi ulp_exponent a b"
  let ?r = "of_int (round_half_even (?q / ?u)) * ?u"
  have q: "0 < ?q" using assms by simp
  have u: "0 < ?u" by (simp add: zero_less_power_int)
  have b: "(0::rat) < of_int b" using assms by simp
  have a53: "(of_int a :: rat) < 2 ^ 53"
    using assms(2) by (metis of_int_less_iff of_int_numeral of_int_power)
  note rng = ulp_exponent_range[OF assms]
  define d where "d = of_int (round_half_even (?q / ?u)) - ?q / ?u"
  have d: "\<bar>d\<bar> \<le> 1 / 2"
    unfolding d_def by (rule round_half_even_close)
  have du: "d * ?u = ?r - ?q"
    unfolding d_def using u by (simp add: left_diff_distrib)
  have "\<bar>?r - ?q\<bar> = \<bar>d\<bar> * ?u"
    using u by (simp only: du[symmetric] abs_mult abs_of_pos[OF u])
  also have "\<dots> \<le> 1 / 2 * ?u"
    using d u by (intro mult_right_mono) simp_all
  finally have "\<bar>?r - ?q\<bar> \<le> ?u / 2" by simp
  also have "\<dots> \<le> ?q / 2 ^ 52 / 2" using rng(2) by simp
  also have "\<dots> = of_int a / 2 ^ 53 / of_int b" by simp
  also have "\<dots> < 1 / of_int b"
    using a53 b by (intro divide_strict_right_mono) simp_all
  finally have close: "\<bar>?r - ?q\<bar> < 1 / of_int b" .
  have "1 / of_int b \<le> (1::rat)" using assms(3) by simp
  with close have "?r < ?q + 1" by linarith
  moreover have "?q \<le> of_int a"
    using assms by (simp add: divide_le_eq_1 mult_le_cancel_left1 field_simps)
  ultimately have "?r < 2 ^ 53 + 1" using a53 by linarith
  also have "\<dots> < (2::rat) ^ 1024" by simp
  finally have no: "\<not> 2 ^ 1024 \<le> ?r" by simp
  have td: "true_div a b = Inr ?r"
    using assms no by (simp add: true_div_def Let_def abs_of_pos[OF q])
  have "b dvd a \<longrightarrow> ?r = ?q"
  proof
    assume "b dvd a"
    then obtain k where k: "a = b * k" by (auto simp add: dvd_def)
    with assms have qk: "?q = of_int k" by simp
    from rng(1) have uu: "?u = 1 / 2 ^ nat (- ulp_exponent a b)"
      by (simp add: power_int_def power_one_over)
    then have "?q / ?u = of_int (k * 2 ^ nat (- ulp_exponent a b))"
      by (simp add: qk)
    then have "round_half_even (?q / ?u) = k * 2 ^ nat (- ulp_exponent a b)"
      by (simp only: round_half_even_int)
    then have "?r = of_int (k * 2 ^ nat (- ulp_exponent a b)) * ?u" by simp
    also have "\<dots> = of_int k" by (simp add: uu)
    finally show "?r = ?q" by (simp add: qk)
  qed
  with td close show ?thesis by blast
qed

lemma ceil_div_exact:
  assumes "0 \<le> a" and "a < 2 ^ 53" and "0 < b" and "b \<le> 2 ^ 53"
  shows "ceil_div a b = Inr \<lceil>(of_int a :: rat) / of_int b\<rceil>"
proof (cases "a = 0")
  case True
  with assms show ?thesis by (simp add: ceil_div_def true_div_def)
next
  case False
  with assms have a: "0 < a" by simp
  let ?q = "of_int a / of_int b :: rat"
  from true_div_close[OF a assms(2,3,4)] obtain r where
    r: "true_div a b = Inr r" and close: "\<bar>r - ?q\<bar> < 1 / of_int b"
    and ex: "b dvd a \<longrightarrow> r = ?q"
    by blast
  have "\<lceil>r\<rceil> = \<lceil>?q\<rceil>"
  proof (cases "b dvd a")
    case True
    with ex show ?thesis by simp
  next
    case False
    have b: "(0::rat) < of_int b" using assms by simp
    have decomp: "a = (a div b) * b + a mod b" by simp
    have "0 \<le> a mod b" "a mod b < b" "a mod b \<noteq> 0"
      using assms(3) False by (simp_all add: dvd_eq_mod_eq_0)
    then have m: "1 \<le> a mod b" "a mod b \<le> b - 1" by linarith+
    have "(of_int a :: rat) = of_int (a div b) * of_int b + of_int (a mod b)"
      by (metis decomp of_int_add of_int_mult)
    then have q: "?q = of_int (a div b) + of_int (a mod b) / of_int b"
      using b by (simp add: field_simps)
    have lo: "1 / of_int b \<le> of_int (a mod b) / (of_int b :: rat)"
      using m(1) b by (intro divide_right_mono) simp_all
    have "(of_int (a mod b) :: rat) \<le> of_int b - 1"
      using m(2) by (metis of_int_1 of_int_diff of_int_le_iff)
    then have "of_int (a mod b) / (of_int b :: rat) \<le> (of_int b - 1) / of_int b"
      using b by (intro divide_right_mono) simp_all
    also have "\<dots> = 1 - 1 / of_int b" using b by (simp add: field_simps)
    finally have hi: "of_int (a mod b) / (of_int b :: rat) \<le> 1 - 1 / of_int b" .
    have pb: "0 < 1 / (of_int b :: rat)" using b by simp
    from close have "?q - 1 / of_int b < r" "r < ?q + 1 / of_int b" by linarith+
    with q lo hi have "of_int (a div b) < r" "r < of_int (a div b) + 1" by linarith+
    then have cr: "\<lceil>r\<rceil> = a div b + 1" by (intro ceiling_unique) simp_all
    from q lo hi pb have "of_int (a div b) < ?q" "?q \<le> of_int (a div b) + 1"
      by linarith+
    then have "\<lceil>?q\<rceil> = a div b + 1" by (intro ceiling_unique) simp_all
    with cr show ?thesis by simp
  qed
  with r show ?thesis by (simp add: ceil_div_def)
qed

lemma ceil_div_code:
  "0 \<le> a \<Longrightarrow> a < 2 ^ 53 \<Longrightarrow> 0 < b \<Longrightarrow> b \<le> 2 ^ 53 \<Longrightarrow>
   ceil_div a b = Inr (- ((- a) div b))"
  by (simp add: ceil_div_exact ceiling_divide_eq_div)

lemma ceiling_rat_numeral [simp]:
  "\<lceil>numeral a / numeral b :: rat\<rceil> = - (- numeral a div numeral b)"
  using ceiling_divide_eq_div[of "numeral a" "numeral b", where ?'a = rat] by simp

lemma check_fit_eq:
  assumes "0 < ratio" and "ratio \<le> 2 ^ 53"
    and "0 \<le> nest_we" and "nest_we < 2 ^ 53" and "0 \<le> nest_sn" and "nest_sn < 2 ^ 53"
  shows "check_fit parent_we parent_sn nest_we nest_sn ratio i_start j_start =
     Inr (i_start + \<lceil>(of_int nest_we :: rat) / of_int ratio\<rceil> - 1,
          j_start + \<lceil>(of_int nest_sn :: rat) / of_int ratio\<rceil> - 1,
          i_start + \<lceil>(of_int nest_we :: rat) / of_int ratio\<rceil> - 1 \<le> parent_we \<and>
          j_start + \<lceil>(of_int nest_sn :: rat) / of_int ratio\<rceil> - 1 \<le> parent_sn)"
  using assms by (auto simp add: check_fit_def ceil_div_exact Let_def)

lemma ceil_div_rounds: "ceil_div 18014398509481986 1 = Inr 18014398509481984"
  by code_simp

text \<open>
  Claim C2, as stated, fails: \<open>suggest_nest_location 100 31 3\<close> is not 44. The
  nest covers \<open>ceil(31/3) = 11\<close> parent cells, half of that is \<open>11 // 2 = 5\<close>, and
  \<open>100 // 2 - 5 = 45\<close>.
\<close>

theorem suggest_start_example_is_not_44:
  "suggest_nest_location 100 31 3 \<noteq> Inr 44"
  by (simp add: suggest_nest_location_def ceil_div_code)

text \<open>
  Claim C2, amended: \<open>suggest_nest_location\<close> applied to parent dimension 100, nest
  dimension 31 and ratio 3 returns exactly 45, that is
  \<open>max(1, 100 // 2 - ceil(31 / 3) // 2)\<close>.
\<close>

theorem suggest_start_example_is_45:
  "suggest_nest_location 100 31 3 = Inr 45 \<and>
   suggest_nest_location 100 31 3 =
     Inr (max 1 (100 div 2 - \<lceil>(31 :: rat) / 3\<rceil> div 2))"
  by (simp add: suggest_nest_location_def ceil_div_code)

text \<open>
  Claim C4, as stated, fails for integers that a double cannot hold: line 581 takes the
  ceiling of the float quotient. A nest of \<open>2^54 + 2\<close> cells at ratio 1 and start 1 in a
  parent of \<open>2^54\<close> cells has \<open>i_start + ceil(nest_we / ratio) - 1 = 2^54 + 2\<close>, beyond
  the parent, yet the quotient rounds to \<open>2^54\<close>, so the check computes
  \<open>i_end = 2^54\<close> and reports a fit.
\<close>

theorem check_fit_rounds_large_nest:
  "check_fit 18014398509481984 100 18014398509481986 31 1 1 1 =
     Inr (18014398509481984, 31, True) \<and>
   1 + \<lceil>(18014398509481986 :: rat) / 1\<rceil> - 1 = 18014398509481986 \<and>
   \<not> (1 + \<lceil>(18014398509481986 :: rat) / 1\<rceil> - 1 \<le> 18014398509481984)"
  by (simp add: check_fit_def ceil_div_rounds ceil_div_code)

text \<open>
  Claim C4, amended: for a ratio from 1 to \<open>2^53\<close> and nest dimensions from 0 to
  \<open>2^53 - 1\<close>, the fit check computes
  \<open>i_end = i_start + ceil(nest_we / ratio) - 1\<close> and
  \<open>j_end = j_start + ceil(nest_sn / ratio) - 1\<close> with the exact ceilings, and reports the
  placement as fitting exactly when \<open>i_end \<le> parent_we\<close> and
  \<open>j_end \<le> parent_sn\<close>; a placement beyond the parent's bounds is reported as not
  fitting. (The parent's dimensions and the starts are any integers.)
\<close>

theorem check_fit_iff:
  assumes "0 < ratio" and "ratio \<le> 2 ^ 53"
    and "0 \<le> nest_we" and "nest_we < 2 ^ 53" and "0 \<le> nest_sn" and "nest_sn < 2 ^ 53"
  shows "check_fit parent_we parent_sn nest_we nest_sn ratio i_start j_start =
     Inr (i_start + \<lceil>(of_int nest_we :: rat) / of_int ratio\<rceil> - 1,
          j_start + \<lceil>(of_int nest_sn :: rat) / of_int ratio\<rceil> - 1,
          i_start + \<lceil>(of_int nest_we :: rat) / of_int ratio\<rceil> - 1 \<le> parent_we \<and>
          j_start + \<lceil>(of_int nest_sn :: rat) / of_int ratio\<rceil> - 1 \<le> parent_sn)"
  using assms by (rule check_fit_eq)

theorem check_fit_iff_witness:
  "(0::int) < 3 \<and> (3::int) \<le> 2 ^ 53 \<and> (0::int) \<le> 31 \<and> (31::int) < 2 ^ 53
     \<and> check_fit 100 100 31 31 3 95 44 = Inr (105, 54, False)
     \<and> check_fit 100 100 31 31 3 45 45 = Inr (55, 55, True)"
  using check_fit_iff[of 3 31 31 100 100 95 44] check_fit_iff[of 3 31 31 100 100 45 45]
  by simp

text \<open>
  Claim C5, as stated, fails: a nest whose footprint is larger than its parent does not
  fit after the repair. With a parent of 10 cells and a nest of 100 cells at ratio 1 and
  start 1, the check reports no fit, the repair sets the start to \<open>max(1, 10 - 100 + 1) = 1\<close>,
  which is the start it had, so the check on the repaired placement reports no fit again.
\<close>

theorem repair_does_not_always_fit:
  "check_fit 10 10 100 5 1 1 1 = Inr (100, 5, False) \<and>
   repair 10 10 100 5 1 1 1 = Inr (1, 1)"
  by (simp add: repair_def check_fit_def ceil_div_code)

text \<open>
  Claim C5, amended: for a ratio from 1 to \<open>2^53\<close>, nest dimensions from 0 to
  \<open>2^53 - 1\<close> and a placement reported as not fitting, the repair sets the start
  of each exceeded axis to \<open>max(1, parent_dim - ceil(nest_dim / ratio) + 1)\<close> and keeps
  the start of an axis that was within bounds; the repaired placement fits exactly when,
  on each exceeded axis, the footprint \<open>ceil(nest_dim / ratio)\<close> is at most the
  parent's dimension.
\<close>

theorem repair_exceeded_axes:
  assumes "0 < ratio" and "ratio \<le> 2 ^ 53"
    and "0 \<le> nest_we" and "nest_we < 2 ^ 53" and "0 \<le> nest_sn" and "nest_sn < 2 ^ 53"
    and "check_fit parent_we parent_sn nest_we nest_sn ratio i_start j_start =
           Inr (i_end, j_end, False)"
  shows "repair parent_we parent_sn nest_we nest_sn ratio i_start j_start =
           Inr (if parent_we < i_end
                then max 1 (parent_we - \<lceil>(of_int nest_we :: rat) / of_int ratio\<rceil> + 1)
                else i_start,
                if parent_sn < j_end
                then max 1 (parent_sn - \<lceil>(of_int nest_sn :: rat) / of_int ratio\<rceil> + 1)
                else j_start)
         \<and> (\<exists>i_end' j_end'.
               seq (repair parent_we parent_sn nest_we nest_sn ratio i_start j_start)
                 (\<lambda>(new_i_start, new_j_start).
                    check_fit parent_we parent_sn nest_we nest_sn ratio new_i_start new_j_start) =
               Inr (i_end', j_end',
                    (parent_we < i_end \<longrightarrow> \<lceil>(of_int nest_we :: rat) / of_int ratio\<rceil> \<le> parent_we) \<and>
                    (parent_sn < j_end \<longrightarrow> \<lceil>(of_int nest_sn :: rat) / of_int ratio\<rceil> \<le> parent_sn)))"
proof -
  let ?cw = "\<lceil>(of_int nest_we :: rat) / of_int ratio\<rceil>"
  let ?cs = "\<lceil>(of_int nest_sn :: rat) / of_int ratio\<rceil>"
  note cf = check_fit_eq[OF assms(1-6)]
  have cd: "ceil_div nest_we ratio = Inr ?cw" "ceil_div nest_sn ratio = Inr ?cs"
    using assms(1-6) by (simp_all add: ceil_div_exact)
  from assms(7) have ends: "i_end = i_start + ?cw - 1" "j_end = j_start + ?cs - 1"
    and nf: "parent_we < i_end \<or> parent_sn < j_end"
    using cf[of parent_we parent_sn i_start j_start]
    by auto
  have rep: "repair parent_we parent_sn nest_we nest_sn ratio i_start j_start =
           Inr (if parent_we < i_end then max 1 (parent_we - ?cw + 1) else i_start,
                if parent_sn < j_end then max 1 (parent_sn - ?cs + 1) else j_start)"
    using nf by (simp add: repair_def assms(7) cd)
  show ?thesis
    unfolding rep
    using ends
    by (auto simp add: cf)
qed

theorem repair_exceeded_axes_witness:
  "(0::int) < 3 \<and> (3::int) \<le> 2 ^ 53 \<and> (0::int) \<le> 31 \<and> (31::int) < 2 ^ 53 \<and>
   check_fit 100 100 31 31 3 95 44 = Inr (105, 54, False) \<and>
   repair 100 100 31 31 3 95 44 = Inr (90, 44) \<and>
   check_fit 100 100 31 31 3 90 44 = Inr (100, 54, True)"
proof -
  have a: "(0::int) < 3" "(3::int) \<le> 2 ^ 53" "(0::int) \<le> 31" "(31::int) < 2 ^ 53"
    by simp_all
  have b: "check_fit 100 100 31 31 3 95 44 = Inr (105, 54, False)"
    by (simp add: check_fit_def ceil_div_code)
  from repair_exceeded_axes[OF a(1,2,3,4,3,4) b]
  have "repair 100 100 31 31 3 95 44 = Inr (90, 44)"
    by simp
  with a b show ?thesis by (simp add: check_fit_def ceil_div_code)
qed

section \<open>Results: the domain list synchronizer\<close>

text \<open>
  Claim C6: when the loop grows \<open>e_we\<close> or \<open>e_sn\<close>, the appended entry is 100 when
  the list was empty, and otherwise the previous entry, incremented by 1 when it is even
  (stated for integer entries); growing \<open>e_we\<close> from \<open>[100]\<close> to three entries yields
  exactly \<open>[100, 101, 101]\<close>.
\<close>

theorem grow_size_entries:
  "(\<forall>key params xs a.
      (key = ''e_we'' \<or> key = ''e_sn'') \<and> map_of params key = Some (PList xs) \<and>
      (xs \<noteq> [] \<longrightarrow> last xs = SInt a) \<longrightarrow>
      append_entry str_mod key params =
        Inr (AList.update key
              (PList (xs @ [if xs = [] then SInt 100 else SInt (if even a then a + 1 else a)]))
              params)) \<and>
   adjust_params_for_max_dom str_mod [(''e_we'', PList [SInt 100])] 3 =
     Some (Inr [(''e_we'', PList [SInt 100, SInt 101, SInt 101])])"
proof -
  have "adjust_params_for_max_dom str_mod [(''e_we'', PList [SInt 100])] 3 =
     Some (Inr [(''e_we'', PList [SInt 100, SInt 101, SInt 101])])"
    by (simp add: sync_eval_simps)
  then show ?thesis by (simp add: append_entry_size)
qed

theorem grow_size_entries_witness:
  "map_of [(''e_we'', PList [SInt 100])] ''e_we'' = Some (PList [SInt 100]) \<and>
   last [SInt 100] = SInt 100 \<and>
   append_entry str_mod_plain ''e_we'' [(''e_we'', PList [SInt 100])] =
     Inr [(''e_we'', PList [SInt 100, SInt 101])] \<and>
   append_entry str_mod_plain ''e_sn'' [(''e_sn'', PList [])] =
     Inr [(''e_sn'', PList [SInt 100])]"
proof -
  from grow_size_entries[of str_mod_plain]
  have g: "\<And>key params xs a.
      (key = ''e_we'' \<or> key = ''e_sn'') \<Longrightarrow> map_of params key = Some (PList xs) \<Longrightarrow>
      (xs \<noteq> [] \<longrightarrow> last xs = SInt a) \<Longrightarrow>
      append_entry str_mod_plain key params =
        Inr (AList.update key
              (PList (xs @ [if xs = [] then SInt 100 else SInt (if even a then a + 1 else a)]))
              params)"
    by blast
  have "append_entry str_mod_plain ''e_we'' [(''e_we'', PList [SInt 100])] =
     Inr [(''e_we'', PList [SInt 100, SInt 101])]"
    using g[of "''e_we''" "[(''e_we'', PList [SInt 100])]" "[SInt 100]" 100] by simp
  moreover have "append_entry str_mod_plain ''e_sn'' [(''e_sn'', PList [])] =
     Inr [(''e_sn'', PList [SInt 100])]"
    using g[of "''e_sn''" "[(''e_sn'', PList [])]" "[]" 0] by simp
  ultimately show ?thesis by simp
qed

text \<open>
  Claim C7, as stated, fails: the growing call need not yield a dictionary. A dictionary
  that holds \<open>i_parent_start\<close> with one entry and no \<open>e_we\<close> has list length 1, and
  synchronizing it to 2 raises \<open>KeyError\<close> (line 126 subscripts \<open>params["e_we"]\<close>);
  a dictionary that holds an empty \<open>parent_id\<close> has list length 0, and synchronizing
  it to 1 never returns.
\<close>

theorem sync_grow_can_fail:
  "is_dict [(''i_parent_start'', PList [SInt 5])] \<and>
   has_list_length [(''i_parent_start'', PList [SInt 5])] 1 \<and>
   adjust_params_for_max_dom str_mod_plain [(''i_parent_start'', PList [SInt 5])] 2 =
     Some (Inl KeyError) \<and>
   is_dict [(''parent_id'', PList [])] \<and>
   has_list_length [(''parent_id'', PList [])] 0 \<and>
   adjust_params_for_max_dom str_mod_plain [(''parent_id'', PList [])] 1 = None"
proof -
  have "grow str_mod_plain ''parent_id'' 1 [(''parent_id'', PList [])] = None"
    by (intro grow_diverges) simp_all
  then have "adjust_params_for_max_dom str_mod_plain [(''parent_id'', PList [])] 1 = None"
    by (simp add: adjust_params_for_max_dom_def list_params_def)
  moreover have
    "adjust_params_for_max_dom str_mod_plain [(''i_parent_start'', PList [SInt 5])] 2 =
       Some (Inl KeyError)"
    by (simp add: sync_eval_simps)
  ultimately show ?thesis
    by (simp add: is_dict_def has_list_length_def list_params_def)
qed

text \<open>
  Claim C7, amended: for a dictionary whose list parameters all have \<open>n\<close> entries,
  synchronizing to the current length \<open>n\<close> changes nothing. For every \<open>m \<ge> n\<close>, when
  \<open>parent_id\<close> and \<open>parent_grid_ratio\<close>, if present, are not empty, each list of
  starts comes with the list of sizes of its axis, and no list of sizes ends with a
  string, synchronizing to \<open>m\<close> returns a dictionary whose list parameters all have
  \<open>m\<close> entries, and synchronizing that to \<open>n\<close> returns the original dictionary. More
  generally, whenever synchronizing to \<open>m \<ge> n\<close> returns a dictionary, synchronizing
  that to \<open>n\<close> returns the original one: growth only appends and the truncation keeps
  the first \<open>n\<close> entries.
\<close>

theorem sync_grow_then_shrink:
  assumes "is_dict params" and "has_list_length params n"
  shows "adjust_params_for_max_dom str_mod params (int n) = Some (Inr params) \<and>
         (int n \<le> m \<and> nonempty_list params ''parent_id'' \<and>
          nonempty_list params ''parent_grid_ratio'' \<and> growable params \<longrightarrow>
            (\<exists>p1. adjust_params_for_max_dom str_mod params m = Some (Inr p1) \<and>
                  has_list_length p1 (nat m) \<and>
                  adjust_params_for_max_dom str_mod p1 (int n) = Some (Inr params))) \<and>
         (int n \<le> m \<and> adjust_params_for_max_dom str_mod params m = Some (Inr p2) \<longrightarrow>
            adjust_params_for_max_dom str_mod p2 (int n) = Some (Inr params))"
proof (intro conjI impI)
  show "adjust_params_for_max_dom str_mod params (int n) = Some (Inr params)"
    using assms by (rule sync_same_length)
next
  assume a: "int n \<le> m \<and> nonempty_list params ''parent_id'' \<and>
          nonempty_list params ''parent_grid_ratio'' \<and> growable params"
  then have nm: "int n \<le> m" and ne: "nonempty_list params ''parent_id''"
    "nonempty_list params ''parent_grid_ratio''" and gr: "growable params"
    by simp_all
  from adjust_returns[OF assms(2) nm gr ne, of str_mod] obtain p1 where
    p1: "adjust_params_for_max_dom str_mod params m = Some (Inr p1)"
      "has_list_length p1 (nat m)"
    by blast
  from shrink_after_grow[OF assms nm p1(1)]
  have "adjust_params_for_max_dom str_mod p1 (int n) = Some (Inr params)" .
  with p1 show "\<exists>p1. adjust_params_for_max_dom str_mod params m = Some (Inr p1) \<and>
                  has_list_length p1 (nat m) \<and>
                  adjust_params_for_max_dom str_mod p1 (int n) = Some (Inr params)"
    by blast
next
  assume "int n \<le> m \<and> adjust_params_for_max_dom str_mod params m = Some (Inr p2)"
  then show "adjust_params_for_max_dom str_mod p2 (int n) = Some (Inr params)"
    using assms by (auto intro: shrink_after_grow)
qed

theorem sync_grow_then_shrink_witness:
  "is_dict default_geogrid_params \<and> has_list_length default_geogrid_params 1 \<and>
   int 1 \<le> 3 \<and>
   nonempty_list default_geogrid_params ''parent_id'' \<and>
   nonempty_list default_geogrid_params ''parent_grid_ratio'' \<and>
   growable default_geogrid_params \<and>
   adjust_params_for_max_dom str_mod_plain default_geogrid_params 3 =
     Some (Inr geogrid_3_domains) \<and>
   has_list_length geogrid_3_domains (nat 3) \<and>
   adjust_params_for_max_dom str_mod_plain geogrid_3_domains (int 1) =
     Some (Inr default_geogrid_params) \<and>
   adjust_params_for_max_dom str_mod_plain default_geogrid_params (int 1) =
     Some (Inr default_geogrid_params)"
  using sync_grow_then_shrink[OF default_geogrid_well_formed(1,2),
      where str_mod = str_mod_plain and m = 3 and ?p2.0 = geogrid_3_domains]
    adjust_defaults_3[of str_mod_plain] default_geogrid_well_formed default_geogrid_growable
  by simp

text \<open>
  Claim C9: when each of \<open>parent_id\<close> and \<open>parent_grid_ratio\<close>, if present, holds a
  non-empty list, the synchronizer returns (a dictionary or an exception) for every
  target length, and each iteration of its loop that completes appends exactly one entry
  to the list being grown. Without the precondition it need not return: with an empty
  \<open>parent_id\<close> list and a target of at least 1 the loop runs forever.
\<close>

theorem sync_terminates:
  "(nonempty_list params ''parent_id'' \<and> nonempty_list params ''parent_grid_ratio'' \<longrightarrow>
      (\<exists>r. adjust_params_for_max_dom str_mod params max_dom = Some r)) \<and>
   (\<forall>key p1. nonempty_list params ''parent_id'' \<and>
      nonempty_list params ''parent_grid_ratio'' \<and> key \<in> set list_params \<and>
      append_entry str_mod key params = Inr p1 \<longrightarrow> appended key params p1) \<and>
   (1 \<le> max_dom \<and> map_of params ''parent_id'' = Some (PList []) \<longrightarrow>
      adjust_params_for_max_dom str_mod params max_dom = None)"
proof (intro conjI impI allI)
  assume "nonempty_list params ''parent_id'' \<and> nonempty_list params ''parent_grid_ratio''"
  then show "\<exists>r. adjust_params_for_max_dom str_mod params max_dom = Some r"
    by (simp add: adjust_terminates)
next
  fix key p1
  assume "nonempty_list params ''parent_id'' \<and>
      nonempty_list params ''parent_grid_ratio'' \<and> key \<in> set list_params \<and>
      append_entry str_mod key params = Inr p1"
  then show "appended key params p1"
    by (intro appended_not_empty_loop[of str_mod key params p1]) auto
next
  assume a: "1 \<le> max_dom \<and> map_of params ''parent_id'' = Some (PList [])"
  then have "grow str_mod ''parent_id'' max_dom params = None"
    by (intro grow_diverges) simp_all
  with a show "adjust_params_for_max_dom str_mod params max_dom = None"
    by (simp add: adjust_params_for_max_dom_def list_params_def)
qed

theorem sync_terminates_witness:
  "nonempty_list default_geogrid_params ''parent_id'' \<and>
   nonempty_list default_geogrid_params ''parent_grid_ratio'' \<and>
   (\<exists>r. adjust_params_for_max_dom str_mod_plain default_geogrid_params 3 = Some r) \<and>
   (1::int) \<le> 1 \<and> map_of [(''parent_id'', PList [])] ''parent_id'' = Some (PList []) \<and>
   adjust_params_for_max_dom str_mod_plain [(''parent_id'', PList [])] 1 = None"
  using sync_terminates[of default_geogrid_params str_mod_plain 3]
    sync_terminates[of "[(''parent_id'', PList [])]" str_mod_plain 1]
    default_geogrid_well_formed(3,4)
  by simp

text \<open>
  Claim C10: when the synchronizer returns a dictionary, its keys are those of the
  argument, in the same order, so that no key is created and an absent key stays absent,
  and the value of every key other than the seven list parameters is unchanged.
\<close>

theorem sync_frame:
  assumes "adjust_params_for_max_dom str_mod params max_dom = Some (Inr p')"
  shows "map fst p' = map fst params \<and>
         (\<forall>k. k \<notin> set list_params \<longrightarrow> map_of p' k = map_of params k) \<and>
         (\<forall>k. map_of params k = None \<longrightarrow> map_of p' k = None)"
proof -
  from assms have "adjust_keys str_mod list_params max_dom params = Some (Inr p')"
    by (simp add: adjust_params_for_max_dom_def)
  from adjust_keys_frame[OF this]
  have k: "map fst p' = map fst params"
    and v: "\<forall>k. k \<notin> set list_params \<longrightarrow> map_of p' k = map_of params k"
    by simp_all
  from k have "fst ` set p' = fst ` set params"
    by (metis image_set)
  then have "\<forall>k. map_of params k = None \<longrightarrow> map_of p' k = None"
    by (simp add: map_of_eq_None_iff)
  with k v show ?thesis by simp
qed

theorem sync_frame_witness:
  "adjust_params_for_max_dom str_mod_plain default_geogrid_params 3 =
     Some (Inr geogrid_3_domains) \<and>
   map fst geogrid_3_domains = map fst default_geogrid_params \<and>
   map_of geogrid_3_domains ''dx'' = Some (Sc (SInt 30000)) \<and>
   map_of geogrid_3_domains ''opt_geogrid_tbl_path'' = None"
proof -
  have e: "adjust_params_for_max_dom str_mod_plain default_geogrid_params 3 =
     Some (Inr geogrid_3_domains)"
    by (rule adjust_defaults_3)
  have "''dx'' \<notin> set list_params" "map_of default_geogrid_params ''dx'' = Some (Sc (SInt 30000))"
    "map_of default_geogrid_params ''opt_geogrid_tbl_path'' = None"
    by (simp_all add: list_params_def default_geogrid_params_def)
  with sync_frame[OF e] e show ?thesis by simp
qed

section \<open>Results: the namelist codec\<close>

text \<open>
  Claim C1, as stated, fails: a string value that holds a comma does not survive the round
  trip. The store of defaults for one domain, with the data path \<open>/data/geog,v2\<close>
  entered by the operator, has list parameters of one entry each; its data path is
  written in quotes and read back as a list of two strings, split at the comma.
\<close>

theorem comma_in_string_breaks_round_trip:
  "has_list_length (geogrid_params comma_path_store) 1 \<and>
   write_then_read float_str_whole py_float_plain ''namelist.wps'' comma_path_store \<noteq>
     Some comma_path_store"
proof -
  have "has_list_length (geogrid_params comma_path_store) 1"
    by (simp add: has_list_length_def list_params_def comma_path_store_def
        default_store_def default_geogrid_params_def)
  moreover have "write_then_read float_str_whole py_float_plain ''namelist.wps''
      comma_path_store \<noteq> Some comma_path_store"
    by (simp add: codec_eval_simps)
  ultimately show ?thesis by simp
qed

text \<open>
  Claim C1, amended: writing a store and reading the text back returns the store itself,
  for every key of every section, whenever in each section the keys are unique, not
  empty, without whitespace at their ends, without \<open>=\<close> and line breaks and not
  starting with \<open>!\<close>, \<open>&\<close> or \<open>/\<close>; every string value has no comma and no line
  break; every float has a text with a point that the float conversion reads back as the
  same float; every list is not empty and holds strings only or no string; and the values
  under the ten list keys, and only those, may be lists of one entry, while scalars sit
  under other keys. The stores made of the defaults and of synchronized lists are of this
  kind.
\<close>

theorem write_then_read_round_trip:
  assumes "store_ok float_str py_float st"
  shows "write_then_read float_str py_float filename st = Some st"
  using read_written[OF assms]
  by (simp add: write_then_read_def write_namelist_wps_def)

theorem write_then_read_round_trip_witness:
  "store_ok float_str_whole py_float_plain default_store \<and>
   write_then_read float_str_whole py_float_plain ''namelist.wps'' default_store =
     Some default_store \<and>
   store_ok float_str_whole py_float_plain
     (default_store\<lparr>geogrid_params := geogrid_3_domains\<rparr>) \<and>
   write_then_read float_str_whole py_float_plain ''namelist.wps''
     (default_store\<lparr>geogrid_params := geogrid_3_domains\<rparr>) =
     Some (default_store\<lparr>geogrid_params := geogrid_3_domains\<rparr>)"
  using write_then_read_round_trip[OF default_store_ok, of "''namelist.wps''"]
    write_then_read_round_trip[OF three_domains_ok, of "''namelist.wps''"]
    default_store_ok three_domains_ok
  by simp

text \<open>
  Claim C3, as stated, fails: a line that opens an unrecognized section does not put the
  reader in the state without an active section. After \<open>&share\<close>, the line \<open>&foo\<close>
  leaves \<open>share\<close> active, and the following \<open>x = 1\<close> is stored in \<open>share\<close>.
\<close>

theorem unknown_section_keeps_active_section:
  "read_existing_namelist py_float_plain
     (''&share'' @ newline @ ''&foo'' @ newline @ ''x = 1'' @ newline) =
   empty_store\<lparr>share_params := [(''x'', Sc (SInt 1))]\<rparr>"
  by (simp add: reader_eval_simps)

text \<open>
  Claim C3, amended: a line that starts with \<open>&\<close> followed by a name that is not one
  of \<open>share\<close>, \<open>geogrid\<close>, \<open>ungrib\<close>, \<open>metgrid\<close> (in any case) leaves the state of
  the reader as it was. When no section was active, none is active after the line, and
  the following lines store nothing until a line opens one of the four sections. When a
  section was active (no \<open>/\<close> line closed it), it stays active and a following
  \<open>name = value\<close> line is stored in it.
\<close>

theorem unknown_section_keeps_state:
  assumes "opens_section raw" and "\<not> known_section raw"
  shows "parse_line py_float raw state = state \<and>
         (snd state = None \<and> (\<forall>l \<in> set ls. \<not> (opens_section l \<and> known_section l)) \<longrightarrow>
            parse_lines py_float ls (parse_line py_float raw state) = (fst state, None)) \<and>
         (snd state = Some sec \<and> \<not> opens_section l \<and> strip l \<noteq> [] \<and>
          \<not> startswith (strip l) ''!'' \<and> \<not> startswith (strip l) ''/'' \<and>
          split_first CHR ''='' (strip l) = Some (name_part, value_part) \<longrightarrow>
            parse_line py_float l (parse_line py_float raw state) =
              (set_param sec (strip name_part) (parse_value py_float value_part) (fst state),
               Some sec))"
proof -
  have 1: "parse_line py_float raw state = state"
    using assms by (rule parse_line_unknown_section)
  show ?thesis
    unfolding 1
    by (cases state) (auto simp add: parse_lines_no_section parse_line_stores)
qed

theorem unknown_section_keeps_state_witness:
  "opens_section ''&foo'' \<and> \<not> known_section ''&foo'' \<and>
   parse_lines py_float_plain [''x = 1'', ''/'', ''&bar'', ''y = 2'']
     (parse_line py_float_plain ''&foo'' (empty_store, None)) = (empty_store, None) \<and>
   parse_line py_float_plain ''x = 1''
     (parse_line py_float_plain ''&foo'' (empty_store, Some Share)) =
     (empty_store\<lparr>share_params := [(''x'', Sc (SInt 1))]\<rparr>, Some Share)"
proof -
  have a: "opens_section ''&foo''" "\<not> known_section ''&foo''"
    by (simp_all add: opens_section_def known_section_def strip_def is_space_def
        startswith_def lower_def lower_char_def)
  have b: "\<forall>l \<in> set [''x = 1'', ''/'', ''&bar'', ''y = 2'']. \<not> (opens_section l \<and> known_section l)"
    by (simp add: opens_section_def known_section_def strip_def is_space_def
        startswith_def lower_def lower_char_def)
  have c: "\<not> opens_section ''x = 1''" "strip ''x = 1'' \<noteq> []"
    "\<not> startswith (strip ''x = 1'') ''!''" "\<not> startswith (strip ''x = 1'') ''/''"
    "split_first CHR ''='' (strip ''x = 1'') = Some (''x '', '' 1'')"
    by (simp_all add: opens_section_def strip_def is_space_def startswith_def split_first_def)
  have d: "set_param Share (strip ''x '') (parse_value py_float_plain '' 1'') empty_store =
      empty_store\<lparr>share_params := [(''x'', Sc (SInt 1))]\<rparr>"
    by (simp add: reader_eval_simps)
  note t1 = unknown_section_keeps_state[OF a, of py_float_plain "(empty_store, None)"
      "[''x = 1'', ''/'', ''&bar'', ''y = 2'']", unfolded fst_conv snd_conv]
  from t1 b
  have 1: "parse_lines py_float_plain [''x = 1'', ''/'', ''&bar'', ''y = 2'']
     (parse_line py_float_plain ''&foo'' (empty_store, None)) = (empty_store, None)"
    by blast
  note t2 = unknown_section_keeps_state[OF a, of py_float_plain "(empty_store, Some Share)" _
      Share "''x = 1''" "''x ''" "'' 1''", unfolded fst_conv snd_conv]
  from t2 c
  have "parse_line py_float_plain ''x = 1''
     (parse_line py_float_plain ''&foo'' (empty_store, Some Share)) =
     (set_param Share (strip ''x '') (parse_value py_float_plain '' 1'') empty_store, Some Share)"
    by blast
  with d
  have 2: "parse_line py_float_plain ''x = 1''
     (parse_line py_float_plain ''&foo'' (empty_store, Some Share)) =
     (empty_store\<lparr>share_params := [(''x'', Sc (SInt 1))]\<rparr>, Some Share)"
    by simp
  from a 1 2 show ?thesis by simp
qed


end
